theory Spec2Isabelle
  imports
    Complex_Main
    "HOL-Library.Multiset"
    "HOL-Library.AList"
    "HOL-Library.Char_ord"
    "HOL-Library.List_Lexorder"
    "HOL-Library.Signed_Division"
begin

section \<open>The bookstore query runner (queries.js)\<close>

text \<open>
  queries.js opens one connection, runs a fixed list of query functions against the
  collection \<^verbatim>\<open>books\<close> and closes the connection. Every function is one call into the
  database driver followed by console output. The functions of queries.js are embedded
  below one by one, with the names and the argument objects of the source. The driver
  calls they make (find, sort, skip, limit, toArray, explain, updateOne, deleteOne,
  aggregate, createIndex, dropIndexes, connect, close) are interpreted over an explicit
  state: the documents of the collection in natural order, its indexes, the state of
  the connection and the trace of driver calls and console lines produced so far.

  The driver and the database are not part of the repository. Their calls follow the
  documented behaviour of the driver: a find without a sort delivers the documents in
  natural order; a sort orders by the comparison order of values and takes a missing
  field as null; a limit of 0 is no limit and a negative skip is rejected; \<^verbatim>\<open>updateOne\<close>
  without upsert and \<^verbatim>\<open>deleteOne\<close> act on the first matching document, and an update
  that leaves the document as it was modifies nothing; \<^verbatim>\<open>$group\<close> names the key of a
  group \<^verbatim>\<open>_id\<close>; \<^verbatim>\<open>$avg\<close> and \<^verbatim>\<open>$sum\<close> skip values that are not numbers; \<^verbatim>\<open>$mod\<close>
  truncates towards zero. Documents are flat: a list of fields with scalar values.

  What the backend is free to choose is a parameter of the state, never a choice of
  the model: which calls it rejects (\<open>faults\<close>), in which order it delivers documents
  that a sort does not order or groups of a \<^verbatim>\<open>$group\<close> stage (\<open>arrange_docs\<close>,
  \<open>arrange_rows\<close>), and what an explain reports (\<open>planner\<close>).
\<close>

subsection \<open>Values and documents\<close>

text \<open>
  The scalar values of a flat document. The numbers of the database are one constructor,
  and the database computes with them exactly.
\<close>

datatype bson = BNull | BNum rat | BStr string | BOid nat | BBool bool

type_synonym doc = "(string \<times> bson) list"

definition field_of :: "string \<Rightarrow> doc \<Rightarrow> bson" where
  "field_of f d = (case map_of d f of None \<Rightarrow> BNull | Some v \<Rightarrow> v)"

text \<open>The comparison order of values: by type first, then within the type.\<close>

fun bson_rank :: "bson \<Rightarrow> nat" where
  "bson_rank BNull = 0"
| "bson_rank (BNum _) = 1"
| "bson_rank (BStr _) = 2"
| "bson_rank (BOid _) = 3"
| "bson_rank (BBool _) = 4"

fun bson_le :: "bson \<Rightarrow> bson \<Rightarrow> bool" where
  "bson_le (BNum a) (BNum b) = (a \<le> b)"
| "bson_le (BStr a) (BStr b) = (a \<le> b)"
| "bson_le (BOid a) (BOid b) = (a \<le> b)"
| "bson_le (BBool a) (BBool b) = (a \<le> b)"
| "bson_le x y = (bson_rank x \<le> bson_rank y)"

subsection \<open>Arithmetic of JavaScript numbers\<close>

text \<open>
  A JavaScript number is an IEEE double. Every integer of magnitude below \<open>2 ^ 53\<close> is a
  double; above, the doubles are the multiples of the unit of their binade. Subtraction and
  multiplication of integers that are doubles return the double nearest to the exact
  result, a tie going to the even multiple of the unit. Overflow to infinity, which needs
  magnitudes above \<open>2 ^ 1023\<close>, is not modelled.
\<close>

fun double_ulp :: "nat \<Rightarrow> nat" where
  "double_ulp n = (if n < 2 ^ 53 then 1 else 2 * double_ulp (n div 2))"

declare double_ulp.simps [simp del]

definition round_double :: "int \<Rightarrow> int" where
  "round_double n =
     (let m = nat \<bar>n\<bar>;
          u = double_ulp m;
          q = m div u;
          r = m mod u;
          k = (if 2 * r < u then q else if u < 2 * r then q + 1
               else if even q then q else q + 1)
      in sgn n * int (k * u))"

definition js_minus :: "int \<Rightarrow> int \<Rightarrow> int" where
  "js_minus a b = round_double (a - b)"

definition js_times :: "int \<Rightarrow> int \<Rightarrow> int" where
  "js_times a b = round_double (a * b)"

subsection \<open>Queries, updates and pipelines as the source writes them\<close>

text \<open>
  A filter object is a list of conditions on fields, all of which must hold:
  \<^verbatim>\<open>{}\<close> is \<open>[]\<close>, \<^verbatim>\<open>{ title }\<close> is \<open>[(''title'', Eq (BStr title))]\<close>,
  \<^verbatim>\<open>{ published_year: { $gt: year } }\<close> is \<open>[(''published_year'', Gt (BNum year))]\<close>.
\<close>

datatype cond = Eq bson | Gt bson

type_synonym flt = "(string \<times> cond) list"

fun holds :: "cond \<Rightarrow> bson option \<Rightarrow> bool" where
  "holds (Eq v) None = (v = BNull)"
| "holds (Eq v) (Some u) = (u = v)"
| "holds (Gt (BNum b)) (Some (BNum a)) = (b < a)"
| "holds (Gt (BStr b)) (Some (BStr a)) = (b < a)"
| "holds (Gt (BOid b)) (Some (BOid a)) = (b < a)"
| "holds (Gt (BBool b)) (Some (BBool a)) = (b < a)"
| "holds (Gt _) _ = False"

definition matches :: "flt \<Rightarrow> doc \<Rightarrow> bool" where
  "matches q d = list_all (\<lambda>(f, c). holds c (map_of d f)) q"

text \<open>The update object \<^verbatim>\<open>{ $set: { f: v } }\<close>.\<close>

datatype update = Set string bson

fun apply_update :: "update \<Rightarrow> doc \<Rightarrow> doc" where
  "apply_update (Set f v) d = AList.update f v d"

text \<open>
  A find cursor collects the options of the chained calls; the request is sent by
  \<open>toArray\<close> or \<open>explain\<close>.
\<close>

record cursor =
  c_filter :: flt
  c_projection :: "(string \<times> int) list option"
  c_sort :: "(string \<times> int) option"
  c_skip :: int
  c_limit :: int

text \<open>Aggregation expressions, accumulators and stages.\<close>

datatype expr = Path string | Const bson | Subtract expr expr | Mod expr expr

datatype accum = Avg expr | Sum expr

datatype stage = Group expr "(string \<times> accum) list" | Sort string int | Limit nat

type_synonym index_spec = "(string \<times> int) list"

subsection \<open>The state, the trace and the driver calls\<close>

datatype error = Fault | BadValue

datatype dbcall =
    CConnect
  | CClose
  | CFind cursor
  | CExplain cursor
  | CUpdateOne flt update
  | CDeleteOne flt
  | CAggregate "stage list"
  | CCreateIndex index_spec
  | CDropIndexes

text \<open>
  A console line is the list of the arguments of the call. A template literal is one
  string when it interpolates strings, and contributes its fragments and the interpolated
  numbers in order otherwise.
\<close>

datatype piece = Str string | Val bson | Arr "doc list" | Exn error

datatype event = Db dbcall | Log "piece list" | LogError "piece list" | LogTable "doc list"

datatype conn = Fresh | Active | Closed

record explain_result =
  totalDocsExamined :: nat
  executionTimeMillis :: nat
  winning_stage :: string

record world =
  docs :: "doc list"
  indexes :: "index_spec list"
  connection :: conn
  trace :: "event list"
  faults :: "dbcall \<Rightarrow> nat \<Rightarrow> bool"
  arrange_docs :: "doc list \<Rightarrow> doc list"
  arrange_rows :: "doc list \<Rightarrow> doc list"
  planner :: "nat \<Rightarrow> explain_result"

text \<open>
  An asynchronous function takes the state and returns its result, or the error it
  throws, together with the new state. \<open>await m f\<close> is \<^verbatim>\<open>const x = await m; f(x)\<close>: an
  error of \<open>m\<close> skips \<open>f\<close>.
\<close>

type_synonym 'a io = "world \<Rightarrow> (error + 'a) \<times> world"

definition ret :: "'a \<Rightarrow> 'a io" where
  "ret x w = (Inr x, w)"

definition await :: "'a io \<Rightarrow> ('a \<Rightarrow> 'b io) \<Rightarrow> 'b io" where
  "await m f w = (case m w of (Inl e, w') \<Rightarrow> (Inl e, w') | (Inr x, w') \<Rightarrow> f x w')"

definition emit :: "event \<Rightarrow> unit io" where
  "emit e w = (Inr (), w\<lparr>trace := trace w @ [e]\<rparr>)"

definition console_log :: "piece list \<Rightarrow> unit io" where
  "console_log ps = emit (Log ps)"

definition console_error :: "piece list \<Rightarrow> unit io" where
  "console_error ps = emit (LogError ps)"

definition console_table :: "doc list \<Rightarrow> unit io" where
  "console_table rows = emit (LogTable rows)"

text \<open>
  Every driver call is recorded in the trace; the backend rejects it when \<open>faults\<close>
  says so for this call at this point of the trace, and serves it otherwise.
\<close>

definition request :: "dbcall \<Rightarrow> 'a io \<Rightarrow> 'a io" where
  "request c body w =
     (let w1 = w\<lparr>trace := trace w @ [Db c]\<rparr>
      in if faults w c (length (trace w)) then (Inl Fault, w1) else body w1)"

text \<open>
  The backend delivers unordered results in an order of its choice: the arrangement it
  makes is used when it is a rearrangement of the input, and the input order otherwise.
\<close>

definition permute :: "('a list \<Rightarrow> 'a list) \<Rightarrow> 'a list \<Rightarrow> 'a list" where
  "permute f xs = (if mset (f xs) = mset xs then f xs else xs)"

fun insert_by :: "('a \<Rightarrow> 'a \<Rightarrow> bool) \<Rightarrow> 'a \<Rightarrow> 'a list \<Rightarrow> 'a list" where
  "insert_by le x [] = [x]"
| "insert_by le x (y # ys) = (if le x y then x # y # ys else y # insert_by le x ys)"

definition sort_by :: "('a \<Rightarrow> 'a \<Rightarrow> bool) \<Rightarrow> 'a list \<Rightarrow> 'a list" where
  "sort_by le xs = foldr (insert_by le) xs []"

text \<open>Direction \<open>1\<close> is ascending, \<open>-1\<close> descending; any other direction is rejected.\<close>

definition key_le :: "int \<Rightarrow> string \<Rightarrow> doc \<Rightarrow> doc \<Rightarrow> bool" where
  "key_le dir f a b =
     (if dir = 1 then bson_le (field_of f a) (field_of f b)
      else bson_le (field_of f b) (field_of f a))"

definition sort_docs :: "(doc list \<Rightarrow> doc list) \<Rightarrow> string \<Rightarrow> int \<Rightarrow> doc list \<Rightarrow> doc list option" where
  "sort_docs arrange f dir ds =
     (if dir = 1 \<or> dir = -1 then Some (sort_by (key_le dir f) (permute arrange ds)) else None)"

subsection \<open>find\<close>

definition find :: "flt \<Rightarrow> cursor" where
  "find q = \<lparr>c_filter = q, c_projection = None, c_sort = None, c_skip = 0, c_limit = 0\<rparr>"

definition find_projection :: "flt \<Rightarrow> (string \<times> int) list \<Rightarrow> cursor" where
  "find_projection q p = (find q)\<lparr>c_projection := Some p\<rparr>"

definition sort_cursor :: "string \<times> int \<Rightarrow> cursor \<Rightarrow> cursor" where
  "sort_cursor s c = c\<lparr>c_sort := Some s\<rparr>"

definition skip :: "int \<Rightarrow> cursor \<Rightarrow> cursor" where
  "skip n c = c\<lparr>c_skip := n\<rparr>"

definition limit :: "int \<Rightarrow> cursor \<Rightarrow> cursor" where
  "limit n c = c\<lparr>c_limit := n\<rparr>"

text \<open>A limit of \<open>0\<close> is no limit; a negative limit \<open>n\<close> returns at most \<open>- n\<close> documents.\<close>

definition limit_docs :: "int \<Rightarrow> 'a list \<Rightarrow> 'a list" where
  "limit_docs n ds = (if n = 0 then ds else take (nat \<bar>n\<bar>) ds)"

text \<open>
  An inclusion projection keeps the fields marked \<open>1\<close>, and \<^verbatim>\<open>_id\<close> unless it is
  marked \<open>0\<close>.
\<close>

definition keeps :: "(string \<times> int) list \<Rightarrow> string \<Rightarrow> bool" where
  "keeps p k = (if k = ''_id'' then map_of p k \<noteq> Some 0 else map_of p k = Some 1)"

definition project :: "(string \<times> int) list option \<Rightarrow> doc \<Rightarrow> doc" where
  "project p d = (case p of None \<Rightarrow> d | Some spec \<Rightarrow> filter (\<lambda>(k, v). keeps spec k) d)"

text \<open>The server filters, sorts, skips, limits and projects, in this order.\<close>

definition run_cursor :: "cursor \<Rightarrow> world \<Rightarrow> doc list option" where
  "run_cursor c w =
     (if c_skip c < 0 then None
      else case (case c_sort c of
                   None \<Rightarrow> Some (filter (matches (c_filter c)) (docs w))
                 | Some (f, dir) \<Rightarrow>
                     sort_docs (arrange_docs w) f dir (filter (matches (c_filter c)) (docs w))) of
             None \<Rightarrow> None
           | Some ds \<Rightarrow>
               Some (map (project (c_projection c))
                       (limit_docs (c_limit c) (drop (nat (c_skip c)) ds))))"

definition toArray :: "cursor \<Rightarrow> doc list io" where
  "toArray c =
     request (CFind c)
       (\<lambda>w. case run_cursor c w of None \<Rightarrow> (Inl BadValue, w) | Some ds \<Rightarrow> (Inr ds, w))"

definition explain :: "cursor \<Rightarrow> explain_result io" where
  "explain c = request (CExplain c) (\<lambda>w. (Inr (planner w (length (trace w))), w))"

subsection \<open>updateOne and deleteOne\<close>

record update_result =
  matchedCount :: nat
  modifiedCount :: nat

text \<open>
  Without the upsert option \<open>updateOne\<close> changes the first document that matches and
  nothing else; a document that the update leaves as it was is matched, not modified.
\<close>

fun update_first :: "flt \<Rightarrow> update \<Rightarrow> doc list \<Rightarrow> doc list \<times> update_result" where
  "update_first q u [] = ([], \<lparr>matchedCount = 0, modifiedCount = 0\<rparr>)"
| "update_first q u (d # ds) =
     (if matches q d
      then (apply_update u d # ds,
            \<lparr>matchedCount = 1, modifiedCount = (if apply_update u d = d then 0 else 1)\<rparr>)
      else (case update_first q u ds of (ds', r) \<Rightarrow> (d # ds', r)))"

definition updateOne :: "flt \<Rightarrow> update \<Rightarrow> update_result io" where
  "updateOne q u =
     request (CUpdateOne q u)
       (\<lambda>w. case update_first q u (docs w) of (ds, r) \<Rightarrow> (Inr r, w\<lparr>docs := ds\<rparr>))"

record delete_result =
  deletedCount :: nat

fun delete_first :: "flt \<Rightarrow> doc list \<Rightarrow> doc list \<times> delete_result" where
  "delete_first q [] = ([], \<lparr>deletedCount = 0\<rparr>)"
| "delete_first q (d # ds) =
     (if matches q d then (ds, \<lparr>deletedCount = 1\<rparr>)
      else (case delete_first q ds of (ds', r) \<Rightarrow> (d # ds', r)))"

definition deleteOne :: "flt \<Rightarrow> delete_result io" where
  "deleteOne q =
     request (CDeleteOne q)
       (\<lambda>w. case delete_first q (docs w) of (ds, r) \<Rightarrow> (Inr r, w\<lparr>docs := ds\<rparr>))"

subsection \<open>aggregate\<close>

text \<open>
  \<^verbatim>\<open>$mod\<close> is the remainder of the division that truncates towards zero: it has the
  sign of the dividend.
\<close>

definition trunc :: "rat \<Rightarrow> int" where
  "trunc q = (if 0 \<le> q then \<lfloor>q\<rfloor> else \<lceil>q\<rceil>)"

definition fmod :: "rat \<Rightarrow> rat \<Rightarrow> rat" where
  "fmod a b = a - b * of_int (trunc (a / b))"

fun arith_sub :: "bson \<Rightarrow> bson \<Rightarrow> bson option" where
  "arith_sub (BNum x) (BNum y) = Some (BNum (x - y))"
| "arith_sub BNull _ = Some BNull"
| "arith_sub _ BNull = Some BNull"
| "arith_sub _ _ = None"

fun arith_mod :: "bson \<Rightarrow> bson \<Rightarrow> bson option" where
  "arith_mod (BNum x) (BNum y) = (if y = 0 then None else Some (BNum (fmod x y)))"
| "arith_mod BNull _ = Some BNull"
| "arith_mod _ BNull = Some BNull"
| "arith_mod _ _ = None"

fun eval :: "expr \<Rightarrow> doc \<Rightarrow> bson option" where
  "eval (Path f) d = Some (field_of f d)"
| "eval (Const v) d = Some v"
| "eval (Subtract a b) d =
     (case eval a d of None \<Rightarrow> None
      | Some x \<Rightarrow> (case eval b d of None \<Rightarrow> None | Some y \<Rightarrow> arith_sub x y))"
| "eval (Mod a b) d =
     (case eval a d of None \<Rightarrow> None
      | Some x \<Rightarrow> (case eval b d of None \<Rightarrow> None | Some y \<Rightarrow> arith_mod x y))"

fun num_of :: "bson \<Rightarrow> rat option" where
  "num_of (BNum x) = Some x"
| "num_of _ = None"

text \<open>\<^verbatim>\<open>$avg\<close> and \<^verbatim>\<open>$sum\<close> ignore the values that are not numbers.\<close>

fun accumulate :: "accum \<Rightarrow> doc list \<Rightarrow> bson option" where
  "accumulate (Avg e) ds =
     (case those (map (eval e) ds) of None \<Rightarrow> None
      | Some vs \<Rightarrow>
          (let ns = List.map_filter num_of vs
           in Some (if ns = [] then BNull else BNum (sum_list ns / of_nat (length ns)))))"
| "accumulate (Sum e) ds =
     (case those (map (eval e) ds) of None \<Rightarrow> None
      | Some vs \<Rightarrow> Some (BNum (sum_list (List.map_filter num_of vs))))"

text \<open>The groups of a list of keyed documents, in the order in which the keys first occur.\<close>

fun group_docs :: "(bson \<times> doc) list \<Rightarrow> (bson \<times> doc list) list" where
  "group_docs [] = []"
| "group_docs ((k, d) # kds) =
     (k, d # map snd (filter (\<lambda>p. fst p = k) kds)) # group_docs (filter (\<lambda>p. fst p \<noteq> k) kds)"

definition group_row :: "(string \<times> accum) list \<Rightarrow> bson \<times> doc list \<Rightarrow> doc option" where
  "group_row accs g =
     (case those (map (\<lambda>(name, a). map_option (Pair name) (accumulate a (snd g))) accs) of
        None \<Rightarrow> None
      | Some fs \<Rightarrow> Some ((''_id'', fst g) # fs))"

fun run_stage :: "(doc list \<Rightarrow> doc list) \<Rightarrow> stage \<Rightarrow> doc list \<Rightarrow> doc list option" where
  "run_stage arrange (Group key accs) ds =
     (case those (map (eval key) ds) of None \<Rightarrow> None
      | Some ks \<Rightarrow>
          map_option (permute arrange) (those (map (group_row accs) (group_docs (zip ks ds)))))"
| "run_stage arrange (Sort f dir) ds = sort_docs arrange f dir ds"
| "run_stage arrange (Limit n) ds = (if n = 0 then None else Some (take n ds))"

fun run_pipeline :: "(doc list \<Rightarrow> doc list) \<Rightarrow> stage list \<Rightarrow> doc list \<Rightarrow> doc list option" where
  "run_pipeline arrange [] ds = Some ds"
| "run_pipeline arrange (s # ss) ds =
     (case run_stage arrange s ds of None \<Rightarrow> None | Some ds' \<Rightarrow> run_pipeline arrange ss ds')"

definition aggregate :: "stage list \<Rightarrow> doc list io" where
  "aggregate stages =
     request (CAggregate stages)
       (\<lambda>w. case run_pipeline (arrange_rows w) stages (docs w) of
               None \<Rightarrow> (Inl BadValue, w)
             | Some rows \<Rightarrow> (Inr rows, w))"

subsection \<open>Indexes\<close>

fun index_name :: "index_spec \<Rightarrow> string" where
  "index_name [] = []"
| "index_name [(f, dir)] = f @ (if dir = 1 then ''_1'' else ''_-1'')"
| "index_name ((f, dir) # fs) = f @ (if dir = 1 then ''_1'' else ''_-1'') @ ''_'' @ index_name fs"

text \<open>
  \<open>indexes\<close> holds the indexes that were created; the index on \<^verbatim>\<open>_id\<close>, which
  \<open>dropIndexes\<close> keeps, is not among them. The driver's \<open>dropIndexes\<close> does not throw: when
  the backend rejects the command it catches the error and returns \<open>False\<close>, and no index is
  dropped.
\<close>

definition createIndex :: "index_spec \<Rightarrow> string io" where
  "createIndex spec =
     request (CCreateIndex spec)
       (\<lambda>w. if spec \<noteq> [] \<and> list_all (\<lambda>(f, dir). dir = 1 \<or> dir = -1) spec
             then (Inr (index_name spec),
                   w\<lparr>indexes := (if spec \<in> set (indexes w) then indexes w else indexes w @ [spec])\<rparr>)
             else (Inl BadValue, w))"

definition dropIndexes :: "bool io" where
  "dropIndexes w =
     (let w1 = w\<lparr>trace := trace w @ [Db CDropIndexes]\<rparr>
      in if faults w CDropIndexes (length (trace w)) then (Inr False, w1)
         else (Inr True, w1\<lparr>indexes := []\<rparr>))"

subsection \<open>The connection\<close>

text \<open>
  \<open>connect\<close> throws when the backend cannot be reached. \<open>close\<close> does not throw: the driver
  closes the client whatever the backend answers.
\<close>

definition connect :: "unit io" where
  "connect = request CConnect (\<lambda>w. (Inr (), w\<lparr>connection := Active\<rparr>))"

definition close :: "unit io" where
  "close w = (Inr (), w\<lparr>trace := trace w @ [Db CClose], connection := Closed\<rparr>)"

subsection \<open>Statement lists, try, catch and finally\<close>

fun statements :: "unit io list \<Rightarrow> unit io" where
  "statements [] = ret ()"
| "statements (m # ms) = await m (\<lambda>_. statements ms)"

definition try_catch :: "unit io \<Rightarrow> (error \<Rightarrow> unit io) \<Rightarrow> unit io" where
  "try_catch m handler w =
     (case m w of (Inl e, w') \<Rightarrow> handler e w' | (Inr x, w') \<Rightarrow> (Inr x, w'))"

text \<open>
  The finally block runs after the try and catch blocks whatever their outcome; an error
  thrown in the finally block is the outcome of the whole statement.
\<close>

definition try_finally :: "unit io \<Rightarrow> unit io \<Rightarrow> unit io" where
  "try_finally m fin w =
     (case m w of
        (r, w') \<Rightarrow> (case fin w' of (Inl e, w'') \<Rightarrow> (Inl e, w'') | (Inr _, w'') \<Rightarrow> (r, w'')))"

subsection \<open>Symbols of the console messages, as UTF-8\<close>

definition dquote :: string where
  "dquote = [CHR 0x22]"

definition check_mark :: string where
  "check_mark = [CHR 0xE2, CHR 0x9C, CHR 0x85]"

definition zzz :: string where
  "zzz = [CHR 0xF0, CHR 0x9F, CHR 0x92, CHR 0xA4]"

definition arrow :: string where
  "arrow = [CHR 0xE2, CHR 0x86, CHR 0x92]"

definition blue_book :: string where
  "blue_book = [CHR 0xF0, CHR 0x9F, CHR 0x93, CHR 0x98]"

definition dart :: string where
  "dart = [CHR 0xF0, CHR 0x9F, CHR 0x8E, CHR 0xAF]"

definition money :: string where
  "money = [CHR 0xF0, CHR 0x9F, CHR 0x92, CHR 0xB0]"

definition page_facing_up :: string where
  "page_facing_up = [CHR 0xF0, CHR 0x9F, CHR 0x93, CHR 0x84]"

subsection \<open>Task 2: basic CRUD operations\<close>

definition findAllBooks :: "unit io" where
  "findAllBooks =
     await (toArray (find []))
       (\<lambda>allBooks. statements
          [console_log [Str ''\<newline>All Books:''],
           console_log [Arr allBooks]])"

definition findAfterYear :: "int \<Rightarrow> unit io" where
  "findAfterYear year =
     await (toArray (find [(''published_year'', Gt (BNum (of_int year)))]))
       (\<lambda>result. statements
          [console_log [Str ''\<newline>Books published after '', Val (BNum (of_int year)), Str '':''],
           console_log [Arr result]])"

definition findByAuthor :: "string \<Rightarrow> unit io" where
  "findByAuthor authorName =
     await (toArray (find [(''author'', Eq (BStr authorName))]))
       (\<lambda>result. statements
          [console_log [Str (''\<newline>Books by '' @ authorName @ '':'')],
           console_log [Arr result]])"

definition updateBookPrice :: "string \<Rightarrow> rat \<Rightarrow> unit io" where
  "updateBookPrice title newPrice =
     await (updateOne [(''title'', Eq (BStr title))] (Set ''price'' (BNum newPrice)))
       (\<lambda>result.
          console_log
            [Str (''\<newline>Updated price for '' @ dquote @ title @ dquote @ '' '' @ arrow),
             Str (if modifiedCount result \<noteq> 0 then ''Success'' else ''No match found'')])"

definition deleteBookByTitle :: "string \<Rightarrow> unit io" where
  "deleteBookByTitle title =
     await (deleteOne [(''title'', Eq (BStr title))])
       (\<lambda>result.
          console_log
            [Str (''\<newline>Deleted '' @ dquote @ title @ dquote @ '' '' @ arrow),
             Str (if deletedCount result \<noteq> 0 then ''Success'' else ''No match found'')])"

subsection \<open>Task 3: advanced queries\<close>

definition findInStockAfter2010 :: "unit io" where
  "findInStockAfter2010 =
     await (toArray (find [(''in_stock'', Eq (BBool True)), (''published_year'', Gt (BNum 2010))]))
       (\<lambda>results. statements
          [console_log [Str (''\<newline>'' @ blue_book @ '' Books in stock and published after 2010:'')],
           console_log [Arr results]])"

definition projectTitleAuthorPrice :: "unit io" where
  "projectTitleAuthorPrice =
     await (toArray (find_projection [] [(''title'', 1), (''author'', 1), (''price'', 1), (''_id'', 0)]))
       (\<lambda>results. statements
          [console_log [Str (''\<newline>'' @ dart @ '' Books (Title, Author, Price only):'')],
           console_log [Arr results]])"

text \<open>
  \<^verbatim>\<open>async function sortByPrice(books, order = "asc")\<close>: an omitted argument is \<open>None\<close>
  and takes the default.
\<close>

definition sortByPrice :: "string option \<Rightarrow> unit io" where
  "sortByPrice order_arg =
     (let order = (case order_arg of None \<Rightarrow> ''asc'' | Some s \<Rightarrow> s);
          sortOrder = (if order = ''asc'' then 1 else -1)
      in await (toArray (sort_cursor (''price'', sortOrder) (find [])))
           (\<lambda>results. statements
              [console_log [Str (''\<newline>'' @ money @ '' Books sorted by price ('' @ order @ ''):'')],
               console_log [Arr results]]))"

text \<open>
  \<^verbatim>\<open>async function paginateBooks(books, page = 1, pageSize = 5)\<close>, with
  \<^verbatim>\<open>const skip = (page - 1) * pageSize\<close> computed on JavaScript numbers.
\<close>

definition paginateBooks :: "int option \<Rightarrow> int option \<Rightarrow> unit io" where
  "paginateBooks page_arg pageSize_arg =
     (let page = (case page_arg of None \<Rightarrow> 1 | Some p \<Rightarrow> p);
          pageSize = (case pageSize_arg of None \<Rightarrow> 5 | Some s \<Rightarrow> s);
          skip_count = js_times (js_minus page 1) pageSize
      in await (toArray (limit pageSize (skip skip_count (find []))))
           (\<lambda>results. statements
              [console_log
                 [Str (''\<newline>'' @ page_facing_up @ '' Page ''), Val (BNum (of_int page)),
                  Str '' (showing '', Val (BNum (of_int pageSize)), Str '' books):''],
               console_log [Arr results]]))"

subsection \<open>Task 4: aggregation pipelines\<close>

definition averagePriceByGenre_pipeline :: "stage list" where
  "averagePriceByGenre_pipeline =
     [Group (Path ''genre'') [(''averagePrice'', Avg (Path ''price''))],
      Sort ''averagePrice'' (-1)]"

definition averagePriceByGenre :: "unit io" where
  "averagePriceByGenre =
     await (aggregate averagePriceByGenre_pipeline)
       (\<lambda>result. statements
          [console_log [Str ''\<newline>Average Price by Genre:''],
           console_table result])"

definition authorWithMostBooks_pipeline :: "stage list" where
  "authorWithMostBooks_pipeline =
     [Group (Path ''author'') [(''totalBooks'', Sum (Const (BNum 1)))],
      Sort ''totalBooks'' (-1),
      Limit 1]"

definition authorWithMostBooks :: "unit io" where
  "authorWithMostBooks =
     await (aggregate authorWithMostBooks_pipeline)
       (\<lambda>result. statements
          [console_log [Str ''\<newline>Author with the Most Books:''],
           console_table result])"

definition decade :: expr where
  "decade = Subtract (Path ''published_year'') (Mod (Path ''published_year'') (Const (BNum 10)))"

definition booksByDecade_pipeline :: "stage list" where
  "booksByDecade_pipeline =
     [Group decade [(''totalBooks'', Sum (Const (BNum 1)))],
      Sort ''_id'' 1]"

definition booksByDecade :: "unit io" where
  "booksByDecade =
     await (aggregate booksByDecade_pipeline)
       (\<lambda>result. statements
          [console_log [Str ''\<newline>Books Grouped by Publication Decade:''],
           console_table result])"

subsection \<open>Task 5: indexes\<close>

definition createTitleIndex :: "unit io" where
  "createTitleIndex =
     await (createIndex [(''title'', 1)])
       (\<lambda>result. console_log [Str ''\<newline>Created Index:'', Str result])"

definition createCompoundIndex :: "unit io" where
  "createCompoundIndex =
     await (createIndex [(''author'', 1), (''published_year'', -1)])
       (\<lambda>result. console_log [Str ''Created Compound Index:'', Str result])"

definition analyzeIndexPerformance :: "unit io" where
  "analyzeIndexPerformance =
     (let query = [(''title'', Eq (BStr ''1984''))]
      in await dropIndexes (\<lambda>_.
         await (explain (find query)) (\<lambda>before.
         await (console_log [Str ''\<newline>Before Index: Total Docs Examined ='',
                             Val (BNum (of_nat (totalDocsExamined before)))]) (\<lambda>_.
         await (console_log [Str ''Before Index: Execution Time ='',
                             Val (BNum (of_nat (executionTimeMillis before))), Str ''ms'']) (\<lambda>_.
         await (createIndex [(''title'', 1)]) (\<lambda>_.
         await (explain (find query)) (\<lambda>after.
         await (console_log [Str ''After Index: Total Docs Examined ='',
                             Val (BNum (of_nat (totalDocsExamined after)))]) (\<lambda>_.
         await (console_log [Str ''After Index: Execution Time ='',
                             Val (BNum (of_nat (executionTimeMillis after))), Str ''ms'']) (\<lambda>_.
         console_log [Str ''Winning Plan:'', Str (winning_stage after)])))))))))"

subsection \<open>run\<close>

text \<open>
  The statements of the try block. \<^verbatim>\<open>client.db\<close> and \<^verbatim>\<open>db.collection\<close> only make
  handles and send nothing.
\<close>

definition run_body :: "unit io" where
  "run_body = statements
     [connect,
      console_log [Str (''\<newline>Connected to plp_bookstore database '' @ check_mark)],
      findAllBooks,
      findAfterYear 1959,
      findByAuthor ''George Orwell'',
      updateBookPrice ''Wuthering Heights'' (799 / 100),
      deleteBookByTitle ''Moby Dick'',
      findInStockAfter2010,
      projectTitleAuthorPrice,
      sortByPrice (Some ''asc''),
      paginateBooks (Some 1) (Some 5),
      averagePriceByGenre,
      authorWithMostBooks,
      booksByDecade,
      createTitleIndex,
      createCompoundIndex,
      analyzeIndexPerformance]"

definition closing_message :: "piece list" where
  "closing_message = [Str (''\<newline>MongoDB connection closed '' @ zzz)]"

definition run :: "unit io" where
  "run =
     try_finally
       (try_catch run_body (\<lambda>err. console_error [Str ''Error occurred:'', Exn err]))
       (statements [close, console_log closing_message])"

text \<open>The top level: \<^verbatim>\<open>run().catch(console.error)\<close>.\<close>

definition main :: "unit io" where
  "main = try_catch run (\<lambda>err. console_error [Exn err])"

subsection \<open>Vocabulary of the statements\<close>

text \<open>The backend serves the request that comes next, whatever it is.\<close>

definition serving :: "world \<Rightarrow> bool" where
  "serving w = (\<forall>c. \<not> faults w c (length (trace w)))"

text \<open>The state after the events \<open>es\<close> have been added to the trace.\<close>

definition logged :: "world \<Rightarrow> event list \<Rightarrow> world" where
  "logged w es = w\<lparr>trace := trace w @ es\<rparr>"

text \<open>
  The mean of a list of numbers and the prices of a list of documents, as the claim about
  \<open>averagePriceByGenre\<close> words them, to be compared with what the pipeline computes.
\<close>

definition mean_of :: "rat list \<Rightarrow> bson" where
  "mean_of ps = (if ps = [] then BNull else BNum (sum_list ps / of_nat (length ps)))"

definition prices :: "doc list \<Rightarrow> rat list" where
  "prices ds = List.map_filter num_of (map (field_of ''price'') ds)"

text \<open>
  An asynchronous function is calm when it only adds events to the trace, none of them a
  connect or a close, and leaves the fault behaviour of the backend as it is.
\<close>

definition calm :: "'a io \<Rightarrow> bool" where
  "calm m =
     (\<forall>w. \<exists>es. trace (snd (m w)) = trace w @ es
             \<and> Db CConnect \<notin> set es \<and> Db CClose \<notin> set es
             \<and> faults (snd (m w)) = faults w)"

subsection \<open>Sample states\<close>

definition no_faults :: "dbcall \<Rightarrow> nat \<Rightarrow> bool" where
  "no_faults c n = False"


definition sample_plan :: "nat \<Rightarrow> explain_result" where
  "sample_plan n =
     (if n < 4
      then \<lparr>totalDocsExamined = 1, executionTimeMillis = 0, winning_stage = ''COLLSCAN''\<rparr>
      else \<lparr>totalDocsExamined = 0, executionTimeMillis = 0, winning_stage = ''FETCH''\<rparr>)"

definition shop :: "doc list \<Rightarrow> world" where
  "shop ds =
     \<lparr>docs = ds, indexes = [], connection = Fresh, trace = [], faults = no_faults,
      arrange_docs = id, arrange_rows = rev, planner = sample_plan\<rparr>"

definition book_a :: doc where
  "book_a = [(''_id'', BOid 1), (''title'', BStr ''Book A''), (''author'', BStr ''Ann''),
             (''genre'', BStr ''Fiction''), (''published_year'', BNum 1955),
             (''price'', BNum 10), (''in_stock'', BBool True)]"

definition book_b :: doc where
  "book_b = [(''_id'', BOid 2), (''title'', BStr ''Book B''), (''author'', BStr ''Bob''),
             (''genre'', BStr ''Fiction''), (''published_year'', BNum 1959),
             (''price'', BNum 20), (''in_stock'', BBool False)]"

definition book_c :: doc where
  "book_c = [(''_id'', BOid 3), (''title'', BStr ''Book C''), (''author'', BStr ''Bob''),
             (''genre'', BStr ''Essay''), (''published_year'', BNum 1960),
             (''price'', BNum 5), (''in_stock'', BBool True)]"

definition sample_year :: "doc \<Rightarrow> int" where
  "sample_year d = (if d = book_a then 1955 else if d = book_b then 1959 else 1960)"


section \<open>Properties\<close>

subsection \<open>Sorting and the console\<close>

lemma mset_insert_by: "mset (insert_by le x xs) = add_mset x (mset xs)"
  by (induction xs) auto

lemma mset_sort_by: "mset (sort_by le xs) = mset xs"
  unfolding sort_by_def by (induction xs) (auto simp: mset_insert_by)

lemma set_insert_by: "set (insert_by le x xs) = insert x (set xs)"
  by (induction xs) auto

lemma sorted_insert_by:
  assumes total: "\<And>a b. le a b \<or> le b a" and trans: "\<And>a b c. le a b \<Longrightarrow> le b c \<Longrightarrow> le a c"
  shows "sorted_wrt le xs \<Longrightarrow> sorted_wrt le (insert_by le x xs)"
proof (induction xs)
  case Nil
  then show ?case by simp
next
  case (Cons y ys)
  show ?case
  proof (cases "le x y")
    case True
    with Cons.prems trans show ?thesis by auto
  next
    case False
    with total have "le y x" by blast
    with Cons False show ?thesis by (auto simp: set_insert_by)
  qed
qed

lemma sorted_sort_by:
  assumes total: "\<And>a b. le a b \<or> le b a" and trans: "\<And>a b c. le a b \<Longrightarrow> le b c \<Longrightarrow> le a c"
  shows "sorted_wrt le (sort_by le xs)"
  unfolding sort_by_def
  by (induction xs) (auto intro: sorted_insert_by [OF total trans])

lemma bson_le_total: "bson_le a b \<or> bson_le b a"
  by (cases a; cases b) auto

lemma bson_le_trans: "bson_le a b \<Longrightarrow> bson_le b c \<Longrightarrow> bson_le a c"
  by (cases a; cases b; cases c) auto

lemma key_le_total: "key_le dir f a b \<or> key_le dir f b a"
  unfolding key_le_def using bson_le_total by auto

lemma key_le_trans: "key_le dir f a b \<Longrightarrow> key_le dir f b c \<Longrightarrow> key_le dir f a c"
  unfolding key_le_def using bson_le_trans by (auto split: if_splits)

lemma mset_permute: "mset (permute f xs) = mset xs"
  by (simp add: permute_def)

lemma key_le_asc: "key_le 1 f = (\<lambda>a b. bson_le (field_of f a) (field_of f b))"
  by (intro ext) (simp add: key_le_def)

lemma key_le_desc: "key_le (-1) f = (\<lambda>a b. bson_le (field_of f b) (field_of f a))"
  by (intro ext) (simp add: key_le_def)

lemma map_project_None: "map (project None) ys = ys"
  by (induction ys) (simp_all add: project_def)

lemma sort_docs_asc:
  "\<exists>ys. sort_docs arr f 1 ds = Some ys \<and> mset ys = mset ds
     \<and> sorted_wrt (\<lambda>a b. bson_le (field_of f a) (field_of f b)) ys"
proof -
  let ?ys = "sort_by (key_le 1 f) (permute arr ds)"
  have "sorted_wrt (key_le 1 f) ?ys"
    by (rule sorted_sort_by) (rule key_le_total, erule (1) key_le_trans)
  then have "sorted_wrt (\<lambda>a b. bson_le (field_of f a) (field_of f b)) ?ys"
    by (simp only: key_le_asc)
  then show ?thesis
    by (simp add: sort_docs_def mset_sort_by mset_permute)
qed

lemma sort_docs_desc:
  "\<exists>ys. sort_docs arr f (-1) ds = Some ys \<and> mset ys = mset ds
     \<and> sorted_wrt (\<lambda>a b. bson_le (field_of f b) (field_of f a)) ys"
proof -
  let ?ys = "sort_by (key_le (-1) f) (permute arr ds)"
  have "sorted_wrt (key_le (-1) f) ?ys"
    by (rule sorted_sort_by) (rule key_le_total, erule (1) key_le_trans)
  then have "sorted_wrt (\<lambda>a b. bson_le (field_of f b) (field_of f a)) ?ys"
    by (simp only: key_le_desc)
  then show ?thesis
    by (simp add: sort_docs_def mset_sort_by mset_permute)
qed

lemma request_served: "serving w \<Longrightarrow> request c body w = body (logged w [Db c])"
  by (simp add: request_def serving_def logged_def Let_def)

lemma serving_shop: "serving (shop ds)"
  by (simp add: serving_def shop_def no_faults_def)

lemma matches_all: "matches [] d"
  by (simp add: matches_def)

lemma logged_logged: "logged (logged w es) es' = logged w (es @ es')"
  by (simp add: logged_def)

lemma console_log_logged: "console_log ps w = (Inr (), logged w [Log ps])"
  by (simp add: console_log_def emit_def logged_def)

lemma console_table_logged: "console_table rows w = (Inr (), logged w [LogTable rows])"
  by (simp add: console_table_def emit_def logged_def)

lemma await_Inr: "m w = (Inr x, w') \<Longrightarrow> await m f w = f x w'"
  by (simp add: await_def)

lemma await_Inl: "m w = (Inl e, w') \<Longrightarrow> await m f w = (Inl e, w')"
  by (simp add: await_def)

lemma docs_logged [simp]: "docs (logged w es) = docs w"
  and arrange_docs_logged [simp]: "arrange_docs (logged w es) = arrange_docs w"
  and arrange_rows_logged [simp]: "arrange_rows (logged w es) = arrange_rows w"
  and trace_logged [simp]: "trace (logged w es) = trace w @ es"
  by (simp_all add: logged_def)

lemma logged_inject: "(logged w es = logged w es') = (es = es')"
proof
  assume "logged w es = logged w es'"
  then have "trace (logged w es) = trace (logged w es')" by simp
  then show "es = es'" by simp
qed simp

lemma print_two:
  "statements [console_log a, console_log b] w = (Inr (), logged w [Log a, Log b])"
  by (simp add: await_def console_log_logged logged_logged ret_def)

lemma print_table:
  "statements [console_log a, console_table b] w = (Inr (), logged w [Log a, LogTable b])"
  by (simp add: await_def console_log_logged console_table_logged logged_logged ret_def)

subsection \<open>sortByPrice\<close>

text \<open>
  Claim C1. Whenever the backend serves the request, \<open>sortByPrice\<close> prints all documents of
  the collection, each as often as the collection holds it. For an order flag other than
  \<^verbatim>\<open>"asc"\<close> they are in non-increasing order of the price field, for the flag
  \<^verbatim>\<open>"asc"\<close> (and for an omitted flag, which takes the default \<^verbatim>\<open>"asc"\<close>) in
  non-decreasing order. The order of prices is the comparison order of values, which
  on numbers is the order of numbers.
\<close>

theorem sortByPrice_order:
  assumes "serving w"
  shows "\<exists>results.
           sortByPrice order w =
             (Inr (),
              logged w
                [Db (CFind (sort_cursor
                       (''price'', if order = None \<or> order = Some ''asc'' then 1 else -1) (find []))),
                 Log [Str (''\<newline>'' @ money @ '' Books sorted by price (''
                        @ (case order of None \<Rightarrow> ''asc'' | Some s \<Rightarrow> s) @ ''):'')],
                 Log [Arr results]])
           \<and> mset results = mset (docs w)
           \<and> (if order = None \<or> order = Some ''asc''
              then sorted_wrt (\<lambda>a b. bson_le (field_of ''price'' a) (field_of ''price'' b)) results
              else sorted_wrt (\<lambda>a b. bson_le (field_of ''price'' b) (field_of ''price'' a)) results)"
proof -
  define dir :: int where "dir = (if order = None \<or> order = Some ''asc'' then 1 else -1)"
  define c where "c = sort_cursor (''price'', dir) (find [])"
  have dir: "dir = 1 \<or> dir = -1" by (simp add: dir_def)
  obtain ys where ys: "sort_docs (arrange_docs w) ''price'' dir (docs w) = Some ys"
      "mset ys = mset (docs w)"
      "if dir = 1 then sorted_wrt (\<lambda>a b. bson_le (field_of ''price'' a) (field_of ''price'' b)) ys
       else sorted_wrt (\<lambda>a b. bson_le (field_of ''price'' b) (field_of ''price'' a)) ys"
    using dir sort_docs_asc [of "arrange_docs w" "''price''" "docs w"]
      sort_docs_desc [of "arrange_docs w" "''price''" "docs w"] by auto
  have run: "run_cursor c (logged w [Db (CFind c)]) = Some ys"
    using ys(1)
    by (simp add: run_cursor_def c_def sort_cursor_def find_def matches_all limit_docs_def
        map_project_None)
  have "toArray c w = (Inr ys, logged w [Db (CFind c)])"
    using assms run by (simp add: toArray_def request_served)
  then have "sortByPrice order w =
      (Inr (), logged w [Db (CFind c),
         Log [Str (''\<newline>'' @ money @ '' Books sorted by price (''
                @ (case order of None \<Rightarrow> ''asc'' | Some s \<Rightarrow> s) @ ''):'')],
         Log [Arr ys]])"
    unfolding sortByPrice_def Let_def
    by (cases order)
      (simp_all add: c_def dir_def await_Inr print_two logged_logged del: statements.simps)
  with ys(2,3) show ?thesis
    unfolding c_def dir_def by (auto split: if_splits)
qed

lemma sortByPrice_sample:
  "sortByPrice (Some ''desc'') (shop [book_a, book_b, book_c]) =
     (Inr (),
      logged (shop [book_a, book_b, book_c])
        [Db (CFind (sort_cursor (''price'', -1) (find []))),
         Log [Str (''\<newline>'' @ money @ '' Books sorted by price (desc):'')],
         Log [Arr [book_b, book_a, book_c]]])"
proof -
  let ?w = "shop [book_a, book_b, book_c]"
  let ?c = "sort_cursor (''price'', -1) (find [])"
  have "run_cursor ?c (logged ?w [Db (CFind ?c)]) = Some [book_b, book_a, book_c]"
    by (simp add: run_cursor_def sort_cursor_def find_def matches_all limit_docs_def
        project_def shop_def sort_docs_def permute_def sort_by_def key_le_def field_of_def
        book_a_def book_b_def book_c_def)
  then have "toArray ?c ?w = (Inr [book_b, book_a, book_c], logged ?w [Db (CFind ?c)])"
    using serving_shop by (simp add: toArray_def request_served)
  then show ?thesis
    unfolding sortByPrice_def Let_def
    by (simp add: await_def print_two logged_logged del: statements.simps)
qed

text \<open>
  Three books with the prices 10, 20 and 5, sorted with the flag \<^verbatim>\<open>"desc"\<close>.
\<close>

theorem sortByPrice_order_witness:
  "serving (shop [book_a, book_b, book_c])
   \<and> sortByPrice (Some ''desc'') (shop [book_a, book_b, book_c]) =
       (Inr (),
        logged (shop [book_a, book_b, book_c])
          [Db (CFind (sort_cursor (''price'', -1) (find []))),
           Log [Str (''\<newline>'' @ money @ '' Books sorted by price (desc):'')],
           Log [Arr [book_b, book_a, book_c]]])
   \<and> sorted_wrt (\<lambda>a b. bson_le (field_of ''price'' b) (field_of ''price'' a))
        [book_b, book_a, book_c]"
proof -
  let ?w = "shop [book_a, book_b, book_c]"
  from sortByPrice_order [OF serving_shop [of "[book_a, book_b, book_c]"], of "Some ''desc''"]
  obtain results where
    "sortByPrice (Some ''desc'') ?w =
       (Inr (), logged ?w
          [Db (CFind (sort_cursor (''price'', -1) (find []))),
           Log [Str (''\<newline>'' @ money @ '' Books sorted by price (desc):'')],
           Log [Arr results]])"
    "sorted_wrt (\<lambda>a b. bson_le (field_of ''price'' b) (field_of ''price'' a)) results"
    by auto
  moreover from this(1) have "results = [book_b, book_a, book_c]"
    unfolding sortByPrice_sample by (simp add: logged_inject)
  ultimately show ?thesis
    using serving_shop by simp
qed

subsection \<open>updateBookPrice\<close>

lemma has_title: "matches [(''title'', Eq (BStr t))] d \<longleftrightarrow> field_of ''title'' d = BStr t"
  by (cases "map_of d ''title''") (auto simp: matches_def field_of_def)

lemma update_first_length: "length (fst (update_first q u ds)) = length ds"
  by (induction ds) (auto split: prod.splits)

lemma update_first_modified:
  "modifiedCount (snd (update_first q u ds)) \<noteq> 0 \<longleftrightarrow> fst (update_first q u ds) \<noteq> ds"
  by (induction ds) (auto split: prod.splits)

lemma update_first_absent:
  "\<forall>d\<in>set ds. \<not> matches q d \<Longrightarrow> update_first q u ds = (ds, \<lparr>matchedCount = 0, modifiedCount = 0\<rparr>)"
  by (induction ds) auto

lemma update_first_same:
  "List.find (matches q) ds = Some d \<Longrightarrow> apply_update u d = d
   \<Longrightarrow> update_first q u ds = (ds, \<lparr>matchedCount = 1, modifiedCount = 0\<rparr>)"
  by (induction ds) (auto split: if_splits)

lemma updateOne_served:
  "serving w \<Longrightarrow>
   updateOne q u w =
     (Inr (snd (update_first q u (docs w))),
      logged (w\<lparr>docs := fst (update_first q u (docs w))\<rparr>) [Db (CUpdateOne q u)])"
  by (simp add: updateOne_def request_served split: prod.splits) (simp add: logged_def)

text \<open>
  Claim C3. Whenever the backend serves the request, \<open>updateBookPrice\<close> leaves the number of
  documents as it is, and reports \<^verbatim>\<open>No match found\<close> exactly when the collection is the
  same after the call as before, \<^verbatim>\<open>Success\<close> exactly when a document was modified. When
  no document has the given title, the collection is unchanged, no document is created
  and the report is \<^verbatim>\<open>No match found\<close>.
\<close>

theorem updateBookPrice_absent:
  assumes "serving w"
  shows "\<exists>ds.
           updateBookPrice title newPrice w =
             (Inr (),
              logged (w\<lparr>docs := ds\<rparr>)
                [Db (CUpdateOne [(''title'', Eq (BStr title))] (Set ''price'' (BNum newPrice))),
                 Log [Str (''\<newline>Updated price for '' @ dquote @ title @ dquote @ '' '' @ arrow),
                      Str (if ds = docs w then ''No match found'' else ''Success'')]])
           \<and> length ds = length (docs w)
           \<and> ((\<forall>d\<in>set (docs w). field_of ''title'' d \<noteq> BStr title) \<longrightarrow> ds = docs w)"
proof -
  let ?q = "[(''title'', Eq (BStr title))]" and ?u = "Set ''price'' (BNum newPrice)"
  let ?ds = "fst (update_first ?q ?u (docs w))"
  have "updateBookPrice title newPrice w =
      (Inr (), logged (w\<lparr>docs := ?ds\<rparr>)
         [Db (CUpdateOne ?q ?u),
          Log [Str (''\<newline>Updated price for '' @ dquote @ title @ dquote @ '' '' @ arrow),
               Str (if ?ds = docs w then ''No match found'' else ''Success'')]])"
    unfolding updateBookPrice_def
    using update_first_modified [of ?q ?u "docs w"]
    by (simp add: await_def updateOne_served [OF assms] console_log_logged logged_logged)
  moreover have "length ?ds = length (docs w)"
    by (rule update_first_length)
  moreover have "(\<forall>d\<in>set (docs w). field_of ''title'' d \<noteq> BStr title) \<longrightarrow> ?ds = docs w"
    by (simp add: update_first_absent has_title)
  ultimately show ?thesis by blast
qed

text \<open>
  The run of queries.js on a collection without the title \<^verbatim>\<open>Wuthering Heights\<close>.
\<close>

theorem updateBookPrice_absent_witness:
  "serving (shop [book_a, book_b])
   \<and> list_all (\<lambda>d. field_of ''title'' d \<noteq> BStr ''Wuthering Heights'') (docs (shop [book_a, book_b]))
   \<and> snd (updateBookPrice ''Wuthering Heights'' (799 / 100) (shop [book_a, book_b])) =
       logged (shop [book_a, book_b])
         [Db (CUpdateOne [(''title'', Eq (BStr ''Wuthering Heights''))] (Set ''price'' (BNum (799 / 100)))),
          Log [Str (''\<newline>Updated price for '' @ dquote @ ''Wuthering Heights'' @ dquote @ '' '' @ arrow),
               Str ''No match found'']]"
proof -
  have s: "serving (shop [book_a, book_b])"
    by (simp add: serving_def shop_def no_faults_def)
  have a: "\<forall>d\<in>set (docs (shop [book_a, book_b])). field_of ''title'' d \<noteq> BStr ''Wuthering Heights''"
    by (simp add: shop_def book_a_def book_b_def field_of_def)
  from updateBookPrice_absent [OF s, of "''Wuthering Heights''" "799 / 100"] a s
  show ?thesis by (auto simp: logged_def list_all_iff)
qed

text \<open>
  Claim C10. When the first document with the given title already has the new price, the
  update matches it and modifies nothing: the report is \<^verbatim>\<open>No match found\<close> and the
  collection, that document included, is unchanged.
\<close>

theorem updateBookPrice_same_price:
  assumes "serving w"
    and "List.find (\<lambda>d. field_of ''title'' d = BStr title) (docs w) = Some d"
    and "field_of ''price'' d = BNum newPrice"
  shows "updateBookPrice title newPrice w =
           (Inr (),
            logged w
              [Db (CUpdateOne [(''title'', Eq (BStr title))] (Set ''price'' (BNum newPrice))),
               Log [Str (''\<newline>Updated price for '' @ dquote @ title @ dquote @ '' '' @ arrow),
                    Str ''No match found'']])"
proof -
  let ?q = "[(''title'', Eq (BStr title))]" and ?u = "Set ''price'' (BNum newPrice)"
  have "map_of d ''price'' = Some (BNum newPrice)"
    using assms(3) by (auto simp: field_of_def split: option.splits)
  then have same: "apply_update ?u d = d"
    by (simp add: update_triv)
  have "matches ?q = (\<lambda>d. field_of ''title'' d = BStr title)"
    by (intro ext) (rule has_title)
  with assms(2) have "List.find (matches ?q) (docs w) = Some d" by simp
  from update_first_same [OF this same]
  have "update_first ?q ?u (docs w) = (docs w, \<lparr>matchedCount = 1, modifiedCount = 0\<rparr>)" .
  then show ?thesis
    unfolding updateBookPrice_def
    by (simp add: await_def updateOne_served [OF assms(1)] console_log_logged logged_logged)
qed

text \<open>
  Setting the price of \<^verbatim>\<open>Book B\<close> to the 20 it already has.
\<close>

theorem updateBookPrice_same_price_witness:
  "serving (shop [book_a, book_b])
   \<and> List.find (\<lambda>d. field_of ''title'' d = BStr ''Book B'') (docs (shop [book_a, book_b])) = Some book_b
   \<and> field_of ''price'' book_b = BNum 20
   \<and> updateBookPrice ''Book B'' 20 (shop [book_a, book_b]) =
       (Inr (),
        logged (shop [book_a, book_b])
          [Db (CUpdateOne [(''title'', Eq (BStr ''Book B''))] (Set ''price'' (BNum 20))),
           Log [Str (''\<newline>Updated price for '' @ dquote @ ''Book B'' @ dquote @ '' '' @ arrow),
                Str ''No match found'']])"
proof -
  have s: "serving (shop [book_a, book_b])"
    by (simp add: serving_def shop_def no_faults_def)
  have f: "List.find (\<lambda>d. field_of ''title'' d = BStr ''Book B'') (docs (shop [book_a, book_b])) = Some book_b"
    by (simp add: shop_def book_a_def book_b_def field_of_def)
  have p: "field_of ''price'' book_b = BNum 20"
    by (simp add: book_b_def field_of_def)
  from updateBookPrice_same_price [OF s f p] s f p show ?thesis by simp
qed


subsection \<open>deleteBookByTitle\<close>

lemma delete_first_absent:
  "\<forall>d\<in>set ds. \<not> matches q d \<Longrightarrow> delete_first q ds = (ds, \<lparr>deletedCount = 0\<rparr>)"
  by (induction ds) auto

lemma delete_first_present:
  "\<exists>d\<in>set ds. matches q d \<Longrightarrow>
   \<exists>pre d post. ds = pre @ d # post \<and> (\<forall>x\<in>set pre. \<not> matches q x) \<and> matches q d
     \<and> delete_first q ds = (pre @ post, \<lparr>deletedCount = 1\<rparr>)"
proof (induction ds)
  case Nil
  then show ?case by simp
next
  case (Cons a ds)
  show ?case
  proof (cases "matches q a")
    case True
    then have "a # ds = [] @ a # ds \<and> (\<forall>x\<in>set []. \<not> matches q x) \<and> matches q a
        \<and> delete_first q (a # ds) = ([] @ ds, \<lparr>deletedCount = 1\<rparr>)"
      by simp
    then show ?thesis by blast
  next
    case False
    with Cons.prems have "\<exists>d\<in>set ds. matches q d" by auto
    from Cons.IH [OF this] obtain pre d post where
      "ds = pre @ d # post" "\<forall>x\<in>set pre. \<not> matches q x" "matches q d"
      "delete_first q ds = (pre @ post, \<lparr>deletedCount = 1\<rparr>)"
      by blast
    with False have "a # ds = (a # pre) @ d # post \<and> (\<forall>x\<in>set (a # pre). \<not> matches q x)
        \<and> matches q d \<and> delete_first q (a # ds) = ((a # pre) @ post, \<lparr>deletedCount = 1\<rparr>)"
      by simp
    then show ?thesis by blast
  qed
qed

lemma deleteOne_served:
  "serving w \<Longrightarrow>
   deleteOne q w =
     (Inr (snd (delete_first q (docs w))),
      logged (w\<lparr>docs := fst (delete_first q (docs w))\<rparr>) [Db (CDeleteOne q)])"
  by (simp add: deleteOne_def request_served split: prod.splits) (simp add: logged_def)

text \<open>
  Claim C4. Whenever the backend serves the request: when no document has the given title,
  \<open>deleteBookByTitle\<close> reports \<^verbatim>\<open>No match found\<close> and the collection, hence its size, is
  unchanged; when some document has the title, exactly the first such document in the
  natural order of the collection is removed, all others stay in place, and the report is
  \<^verbatim>\<open>Success\<close>.
\<close>

theorem deleteBookByTitle_first_match:
  assumes "serving w"
  shows "((\<forall>d\<in>set (docs w). field_of ''title'' d \<noteq> BStr title) \<longrightarrow>
            deleteBookByTitle title w =
              (Inr (),
               logged w
                 [Db (CDeleteOne [(''title'', Eq (BStr title))]),
                  Log [Str (''\<newline>Deleted '' @ dquote @ title @ dquote @ '' '' @ arrow),
                       Str ''No match found'']]))
       \<and> ((\<exists>d\<in>set (docs w). field_of ''title'' d = BStr title) \<longrightarrow>
            (\<exists>pre d post.
               docs w = pre @ d # post
               \<and> (\<forall>x\<in>set pre. field_of ''title'' x \<noteq> BStr title)
               \<and> field_of ''title'' d = BStr title
               \<and> deleteBookByTitle title w =
                   (Inr (),
                    logged (w\<lparr>docs := pre @ post\<rparr>)
                      [Db (CDeleteOne [(''title'', Eq (BStr title))]),
                       Log [Str (''\<newline>Deleted '' @ dquote @ title @ dquote @ '' '' @ arrow),
                            Str ''Success'']])))"
proof (intro conjI impI)
  let ?q = "[(''title'', Eq (BStr title))]"
  assume "\<forall>d\<in>set (docs w). field_of ''title'' d \<noteq> BStr title"
  then have "delete_first ?q (docs w) = (docs w, \<lparr>deletedCount = 0\<rparr>)"
    by (simp add: delete_first_absent has_title)
  then show "deleteBookByTitle title w =
      (Inr (), logged w [Db (CDeleteOne ?q),
         Log [Str (''\<newline>Deleted '' @ dquote @ title @ dquote @ '' '' @ arrow),
              Str ''No match found'']])"
    unfolding deleteBookByTitle_def
    by (simp add: await_def deleteOne_served [OF assms] console_log_logged logged_logged)
next
  let ?q = "[(''title'', Eq (BStr title))]"
  assume "\<exists>d\<in>set (docs w). field_of ''title'' d = BStr title"
  then have "\<exists>d\<in>set (docs w). matches ?q d"
    by (simp add: has_title)
  from delete_first_present [OF this] obtain pre d post where *:
    "docs w = pre @ d # post" "\<forall>x\<in>set pre. \<not> matches ?q x" "matches ?q d"
    "delete_first ?q (docs w) = (pre @ post, \<lparr>deletedCount = 1\<rparr>)"
    by blast
  have "deleteBookByTitle title w =
      (Inr (), logged (w\<lparr>docs := pre @ post\<rparr>) [Db (CDeleteOne ?q),
         Log [Str (''\<newline>Deleted '' @ dquote @ title @ dquote @ '' '' @ arrow),
              Str ''Success'']])"
    unfolding deleteBookByTitle_def
    by (simp add: await_def deleteOne_served [OF assms] *(4) console_log_logged logged_logged)
  with *(1,2,3) show "\<exists>pre d post.
      docs w = pre @ d # post
      \<and> (\<forall>x\<in>set pre. field_of ''title'' x \<noteq> BStr title)
      \<and> field_of ''title'' d = BStr title
      \<and> deleteBookByTitle title w =
          (Inr (), logged (w\<lparr>docs := pre @ post\<rparr>) [Db (CDeleteOne ?q),
             Log [Str (''\<newline>Deleted '' @ dquote @ title @ dquote @ '' '' @ arrow),
                  Str ''Success'']])"
    unfolding has_title by blast
qed

text \<open>
  Both cases on a collection of three books.
\<close>

theorem deleteBookByTitle_first_match_witness:
  "serving (shop [book_a, book_b, book_c])
   \<and> list_all (\<lambda>d. field_of ''title'' d \<noteq> BStr ''Moby Dick'') (docs (shop [book_a, book_b, book_c]))
   \<and> deleteBookByTitle ''Moby Dick'' (shop [book_a, book_b, book_c]) =
       (Inr (),
        logged (shop [book_a, book_b, book_c])
          [Db (CDeleteOne [(''title'', Eq (BStr ''Moby Dick''))]),
           Log [Str (''\<newline>Deleted '' @ dquote @ ''Moby Dick'' @ dquote @ '' '' @ arrow),
                Str ''No match found'']])
   \<and> list_ex (\<lambda>d. field_of ''title'' d = BStr ''Book B'') (docs (shop [book_a, book_b, book_c]))
   \<and> fst (deleteBookByTitle ''Book B'' (shop [book_a, book_b, book_c])) = Inr ()"
proof -
  let ?w = "shop [book_a, book_b, book_c]"
  have s: "serving ?w"
    by (simp add: serving_def shop_def no_faults_def)
  have a: "\<forall>d\<in>set (docs ?w). field_of ''title'' d \<noteq> BStr ''Moby Dick''"
    by (simp add: shop_def book_a_def book_b_def book_c_def field_of_def)
  have b: "\<exists>d\<in>set (docs ?w). field_of ''title'' d = BStr ''Book B''"
    by (simp add: shop_def book_a_def book_b_def book_c_def field_of_def)
  from deleteBookByTitle_first_match [OF s, of "''Moby Dick''"] a
  have 1: "deleteBookByTitle ''Moby Dick'' ?w =
       (Inr (), logged ?w
          [Db (CDeleteOne [(''title'', Eq (BStr ''Moby Dick''))]),
           Log [Str (''\<newline>Deleted '' @ dquote @ ''Moby Dick'' @ dquote @ '' '' @ arrow),
                Str ''No match found'']])"
    by blast
  from deleteBookByTitle_first_match [OF s, of "''Book B''"] b
  have 2: "fst (deleteBookByTitle ''Book B'' ?w) = Inr ()"
    by auto
  from s a b 1 2 show ?thesis by (simp add: list_all_iff list_ex_iff)
qed

subsection \<open>paginateBooks\<close>

lemma double_ulp_small: "n < 2 ^ 53 \<Longrightarrow> double_ulp n = 1"
  by (subst double_ulp.simps) simp

lemma round_double_small:
  assumes "\<bar>n\<bar> < 2 ^ 53"
  shows "round_double n = n"
proof -
  from assms have "nat \<bar>n\<bar> < 2 ^ 53"
    by (simp add: nat_less_iff)
  then have "double_ulp (nat \<bar>n\<bar>) = 1"
    by (rule double_ulp_small)
  then have "round_double n = sgn n * int (nat \<bar>n\<bar>)"
    by (simp add: round_double_def Let_def)
  also have "\<dots> = n"
    by (simp add: sgn_if)
  finally show ?thesis .
qed

lemma skip_count_exact:
  assumes "1 \<le> page" and "1 \<le> pageSize" and "(page - 1) * pageSize \<le> 9007199254740991"
  shows "js_times (js_minus page 1) pageSize = (page - 1) * pageSize"
proof -
  from assms(1,2) have "(page - 1) * 1 \<le> (page - 1) * pageSize"
    by (intro mult_left_mono) simp_all
  with assms(1,3) have "\<bar>page - 1\<bar> < 2 ^ 53"
    by simp
  then have "js_minus page 1 = page - 1"
    unfolding js_minus_def by (rule round_double_small)
  moreover from assms have "0 \<le> (page - 1) * pageSize"
    by simp
  with assms(3) have "\<bar>(page - 1) * pageSize\<bar> < 2 ^ 53"
    by simp
  then have "round_double ((page - 1) * pageSize) = (page - 1) * pageSize"
    by (rule round_double_small)
  ultimately show ?thesis
    by (simp add: js_times_def)
qed

text \<open>
  Claim C2, for a page size of at least 1 and arguments in the range of the safe integers.
  Whenever the backend serves the request, for every page \<open>\<ge> 1\<close> and every page size \<open>\<ge> 1\<close>
  such that the page size and \<open>(page - 1) * pageSize\<close> are at most \<open>2 ^ 53 - 1\<close>,
  \<open>paginateBooks\<close> sends skip \<open>(page - 1) * pageSize\<close> and limit \<open>pageSize\<close>, and prints the
  documents of the collection, in natural order, from offset \<open>(page - 1) * pageSize\<close> on,
  at most \<open>pageSize\<close> of them.
\<close>

theorem paginateBooks_page:
  assumes "serving w" and "1 \<le> page" and "1 \<le> pageSize"
    and "pageSize \<le> 9007199254740991"
    and "(page - 1) * pageSize \<le> 9007199254740991"
  shows "\<exists>results.
           paginateBooks (Some page) (Some pageSize) w =
             (Inr (),
              logged w
                [Db (CFind (limit pageSize (skip ((page - 1) * pageSize) (find [])))),
                 Log [Str (''\<newline>'' @ page_facing_up @ '' Page ''), Val (BNum (of_int page)),
                      Str '' (showing '', Val (BNum (of_int pageSize)), Str '' books):''],
                 Log [Arr results]])
           \<and> results = take (nat pageSize) (drop (nat ((page - 1) * pageSize)) (docs w))
           \<and> int (length results) \<le> pageSize"
proof -
  let ?c = "limit pageSize (skip ((page - 1) * pageSize) (find []))"
  let ?rs = "take (nat pageSize) (drop (nat ((page - 1) * pageSize)) (docs w))"
  have skip_count: "js_times (js_minus page 1) pageSize = (page - 1) * pageSize"
    using assms(2,3,5) by (rule skip_count_exact)
  have "0 \<le> (page - 1) * pageSize"
    using assms(2,3) by simp
  then have run: "run_cursor ?c (logged w [Db (CFind ?c)]) = Some ?rs"
    using assms(3)
    by (simp add: run_cursor_def limit_def skip_def find_def matches_all limit_docs_def
        map_project_None)
  have "toArray ?c w = (Inr ?rs, logged w [Db (CFind ?c)])"
    using assms(1) run by (simp add: toArray_def request_served)
  then have "paginateBooks (Some page) (Some pageSize) w =
      (Inr (), logged w [Db (CFind ?c),
         Log [Str (''\<newline>'' @ page_facing_up @ '' Page ''), Val (BNum (of_int page)),
              Str '' (showing '', Val (BNum (of_int pageSize)), Str '' books):''],
         Log [Arr ?rs]])"
    unfolding paginateBooks_def Let_def
    by (simp add: skip_count await_def print_two logged_logged del: statements.simps)
  moreover have "int (length ?rs) \<le> pageSize"
    using assms(3) by simp
  ultimately show ?thesis by blast
qed

text \<open>
  The second page of size 2 of a collection of three books.
\<close>

theorem paginateBooks_page_witness:
  "serving (shop [book_a, book_b, book_c]) \<and> (1::int) \<le> 2
   \<and> (2::int) \<le> 9007199254740991 \<and> ((2::int) - 1) * 2 \<le> 9007199254740991
   \<and> paginateBooks (Some 2) (Some 2) (shop [book_a, book_b, book_c]) =
       (Inr (),
        logged (shop [book_a, book_b, book_c])
          [Db (CFind (limit 2 (skip 2 (find [])))),
           Log [Str (''\<newline>'' @ page_facing_up @ '' Page ''), Val (BNum 2),
                Str '' (showing '', Val (BNum 2), Str '' books):''],
           Log [Arr [book_c]]])"
proof -
  have s: "serving (shop [book_a, book_b, book_c])"
    by (simp add: serving_def shop_def no_faults_def)
  have d: "take (nat 2) (drop (nat ((2 - 1) * 2)) (docs (shop [book_a, book_b, book_c]))) = [book_c]"
    by (simp add: shop_def)
  from paginateBooks_page [OF s, of 2 2] s d show ?thesis by simp
qed

text \<open>
  Claim C2 as stated fails for the page size 0: a limit of 0 is no limit, and the call
  prints all three documents of the collection, which is more than 0.
\<close>

theorem paginateBooks_zero_pageSize:
  "paginateBooks (Some 1) (Some 0) (shop [book_a, book_b, book_c]) =
     (Inr (),
      logged (shop [book_a, book_b, book_c])
        [Db (CFind (limit 0 (skip 0 (find [])))),
         Log [Str (''\<newline>'' @ page_facing_up @ '' Page ''), Val (BNum 1),
              Str '' (showing '', Val (BNum 0), Str '' books):''],
         Log [Arr [book_a, book_b, book_c]]])
   \<and> \<not> int (length [book_a, book_b, book_c]) \<le> 0"
proof -
  let ?w = "shop [book_a, book_b, book_c]"
  let ?c = "limit 0 (skip 0 (find []))"
  have s: "serving ?w"
    by (simp add: serving_def shop_def no_faults_def)
  have skip_count: "js_times (js_minus 1 1) 0 = 0"
    by (simp add: js_times_def js_minus_def round_double_small)
  have run: "run_cursor ?c (logged ?w [Db (CFind ?c)]) = Some [book_a, book_b, book_c]"
    by (simp add: run_cursor_def limit_def skip_def find_def matches_all limit_docs_def
        project_def shop_def)
  have "toArray ?c ?w = (Inr [book_a, book_b, book_c], logged ?w [Db (CFind ?c)])"
    using s run by (simp add: toArray_def request_served)
  then show ?thesis
    unfolding paginateBooks_def Let_def
    by (simp add: skip_count await_def print_two logged_logged del: statements.simps)
qed

text \<open>
  Beyond the safe integers the skip that is sent is the rounded product:
  \<open>94906267 * 94906267 = 9007199515875289\<close> is sent as \<open>9007199515875288\<close>.
\<close>

lemma skip_count_rounded: "js_times (js_minus 94906268 1) 94906267 = 9007199515875288"
proof -
  have "js_minus 94906268 1 = 94906267"
    by (simp add: js_minus_def round_double_small)
  moreover have "double_ulp 9007199515875289 = 2"
    by (subst double_ulp.simps) (simp add: double_ulp_small)
  ultimately show ?thesis
    by (simp add: js_times_def round_double_def Let_def)
qed

subsection \<open>Grouping\<close>

lemma those_map_Some: "(\<And>x. x \<in> set xs \<Longrightarrow> g x = Some (h x)) \<Longrightarrow> those (map g xs) = Some (map h xs)"
  by (induction xs) auto

lemma group_docs_keys: "fst ` set (group_docs kds) = fst ` set kds"
proof (induction kds rule: group_docs.induct)
  case 1
  then show ?case by simp
next
  case (2 k d kds)
  have "fst ` set (group_docs ((k, d) # kds)) =
      insert k (fst ` set (group_docs (filter (\<lambda>p. fst p \<noteq> k) kds)))"
    by simp
  also have "\<dots> = insert k (fst ` set (filter (\<lambda>p. fst p \<noteq> k) kds))"
    by (simp only: "2.IH")
  also have "\<dots> = insert k (fst ` set kds)"
    by auto
  finally show ?case by simp
qed

lemma group_docs_distinct: "distinct (map fst (group_docs kds))"
proof (induction kds rule: group_docs.induct)
  case 1
  then show ?case by simp
next
  case (2 k d kds)
  have "k \<notin> fst ` set (group_docs (filter (\<lambda>p. fst p \<noteq> k) kds))"
    unfolding group_docs_keys by auto
  with 2 show ?case by simp
qed

lemma group_docs_member:
  "(k, g) \<in> set (group_docs kds) \<Longrightarrow> g = map snd (filter (\<lambda>p. fst p = k) kds)"
proof (induction kds rule: group_docs.induct)
  case 1
  then show ?case by simp
next
  case (2 k' d kds)
  show ?case
  proof (cases "k = k'")
    case True
    have "k' \<notin> fst ` set (group_docs (filter (\<lambda>p. fst p \<noteq> k') kds))"
      unfolding group_docs_keys by auto
    then have "(k', g) \<notin> set (group_docs (filter (\<lambda>p. fst p \<noteq> k') kds))"
      by (metis fst_conv image_eqI)
    with True "2.prems" have "g = d # map snd (filter (\<lambda>p. fst p = k') kds)"
      by simp
    with True show ?thesis by simp
  next
    case False
    with "2.prems" have "(k, g) \<in> set (group_docs (filter (\<lambda>p. fst p \<noteq> k') kds))"
      by auto
    from "2.IH" [OF this] have "g = map snd (filter (\<lambda>p. fst p = k) (filter (\<lambda>p. fst p \<noteq> k') kds))" .
    also have "filter (\<lambda>p. fst p = k) (filter (\<lambda>p. fst p \<noteq> k') kds) = filter (\<lambda>p. fst p = k) kds"
      using False by (auto intro: filter_cong)
    finally show ?thesis using False by simp
  qed
qed

lemma zip_keys: "zip (map key ds) ds = map (\<lambda>d. (key d, d)) ds"
  by (induction ds) auto

lemma members_zip:
  "map snd (filter (\<lambda>p. fst p = k) (map (\<lambda>d. (key d, d)) ds)) = filter (\<lambda>d. key d = k) ds"
  by (induction ds) auto

lemma keys_zip: "fst ` set (map (\<lambda>d. (key d, d)) ds) = key ` set ds"
  by (simp add: image_image)

lemma groups_by_key:
  "set (group_docs (zip (map key ds) ds)) = (\<lambda>d. (key d, filter (\<lambda>x. key x = key d) ds)) ` set ds"
proof (intro set_eqI iffI)
  fix p
  assume p: "p \<in> set (group_docs (zip (map key ds) ds))"
  then have "fst p \<in> fst ` set (group_docs (zip (map key ds) ds))"
    by (rule imageI)
  then have "fst p \<in> key ` set ds"
    by (simp only: group_docs_keys zip_keys keys_zip)
  then obtain d where d: "d \<in> set ds" "fst p = key d" ..
  from p have "(fst p, snd p) \<in> set (group_docs (zip (map key ds) ds))"
    by simp
  then have "snd p = map snd (filter (\<lambda>q. fst q = fst p) (zip (map key ds) ds))"
    by (rule group_docs_member)
  then have "snd p = filter (\<lambda>x. key x = key d) ds"
    by (simp only: zip_keys members_zip d(2))
  with d(2) have "p = (key d, filter (\<lambda>x. key x = key d) ds)"
    by (simp add: prod_eq_iff)
  with d(1) show "p \<in> (\<lambda>d. (key d, filter (\<lambda>x. key x = key d) ds)) ` set ds"
    by (rule_tac image_eqI)
next
  fix p
  assume "p \<in> (\<lambda>d. (key d, filter (\<lambda>x. key x = key d) ds)) ` set ds"
  then obtain d where d: "d \<in> set ds" "p = (key d, filter (\<lambda>x. key x = key d) ds)" ..
  from d(1) have "key d \<in> key ` set ds"
    by (rule imageI)
  then have "key d \<in> fst ` set (group_docs (zip (map key ds) ds))"
    by (simp only: group_docs_keys zip_keys keys_zip)
  then obtain q where q: "q \<in> set (group_docs (zip (map key ds) ds))" "key d = fst q" ..
  then have "(key d, snd q) \<in> set (group_docs (zip (map key ds) ds))"
    by simp
  then have "snd q = map snd (filter (\<lambda>r. fst r = key d) (zip (map key ds) ds))"
    by (rule group_docs_member)
  then have "snd q = filter (\<lambda>x. key x = key d) ds"
    by (simp only: zip_keys members_zip)
  with q(2) d(2) have "p = q"
    by (simp add: prod_eq_iff)
  with q(1) show "p \<in> set (group_docs (zip (map key ds) ds))"
    by simp
qed

lemma accumulate_count: "accumulate (Sum (Const (BNum 1))) g = Some (BNum (of_nat (length g)))"
proof -
  have "those (map (eval (Const (BNum 1))) g) = Some (map (\<lambda>_. BNum 1) g)"
    by (rule those_map_Some) simp
  moreover have "List.map_filter num_of (map (\<lambda>_. BNum 1) g) = map (\<lambda>_. 1) g"
    by (induction g) (simp_all add: List.map_filter_simps)
  moreover have "sum_list (map (\<lambda>_. 1::rat) g) = of_nat (length g)"
    by (induction g) simp_all
  ultimately show ?thesis by simp
qed

lemma group_row_count:
  "group_row [(''totalBooks'', Sum (Const (BNum 1)))] g =
     Some [(''_id'', fst g), (''totalBooks'', BNum (of_nat (length (snd g))))]"
  by (simp add: group_row_def accumulate_count del: accumulate.simps)

lemma accumulate_avg: "accumulate (Avg (Path ''price'')) g = Some (mean_of (prices g))"
proof -
  have "those (map (eval (Path ''price'')) g) = Some (map (field_of ''price'') g)"
    by (rule those_map_Some) simp
  then show ?thesis by (simp add: mean_of_def prices_def Let_def)
qed

lemma group_row_avg:
  "group_row [(''averagePrice'', Avg (Path ''price''))] g =
     Some [(''_id'', fst g), (''averagePrice'', mean_of (prices (snd g)))]"
  by (simp add: group_row_def accumulate_avg del: accumulate.simps)

lemma group_then_sort:
  assumes keys: "\<And>d. d \<in> set ds \<Longrightarrow> eval key d = Some (k d)"
    and rows: "\<And>g. group_row accs g = Some (row g)"
    and dir: "dir = 1 \<or> dir = -1"
  shows "\<exists>rows. run_pipeline arr [Group key accs, Sort f dir] ds = Some rows
           \<and> mset rows = mset (map row (group_docs (zip (map k ds) ds)))
           \<and> sorted_wrt (key_le dir f) rows"
proof -
  let ?G = "group_docs (zip (map k ds) ds)"
  have 1: "those (map (eval key) ds) = Some (map k ds)"
    by (rule those_map_Some) (rule keys)
  have 2: "those (map (group_row accs) ?G) = Some (map row ?G)"
    by (rule those_map_Some) (rule rows)
  have stage1: "run_stage arr (Group key accs) ds = Some (permute arr (map row ?G))"
    by (simp add: 1 2)
  let ?rows = "sort_by (key_le dir f) (permute arr (permute arr (map row ?G)))"
  have stage2: "run_stage arr (Sort f dir) (permute arr (map row ?G)) = Some ?rows"
    using dir by (auto simp add: sort_docs_def)
  have "run_pipeline arr [Group key accs, Sort f dir] ds = Some ?rows"
    by (simp only: run_pipeline.simps stage1 stage2 option.case)
  moreover have "mset ?rows = mset (map row ?G)"
    by (simp only: mset_sort_by mset_permute)
  moreover have "sorted_wrt (key_le dir f) ?rows"
    by (rule sorted_sort_by) (rule key_le_total, erule (1) key_le_trans)
  ultimately show ?thesis by blast
qed

subsection \<open>booksByDecade\<close>

lemma trunc_of_int: "trunc (of_int y / 10) = (if 0 \<le> y then y div 10 else - ((- y) div 10))"
proof (cases "0 \<le> y")
  case True
  have "\<lfloor>(of_int y :: rat) / of_int 10\<rfloor> = y div 10"
    by (rule floor_divide_of_int_eq)
  with True show ?thesis by (simp add: trunc_def)
next
  case False
  have "\<lceil>(of_int y :: rat) / 10\<rceil> = - \<lfloor>- ((of_int y :: rat) / 10)\<rfloor>"
    by (simp add: ceiling_def)
  also have "- ((of_int y :: rat) / 10) = of_int (- y) / of_int 10"
    by simp
  also have "\<lfloor>(of_int (- y) :: rat) / of_int 10\<rfloor> = (- y) div 10"
    by (rule floor_divide_of_int_eq)
  finally have "\<lceil>(of_int y :: rat) / 10\<rceil> = - ((- y) div 10)" .
  moreover from False have "\<not> 0 \<le> (of_int y :: rat) / 10" by simp
  ultimately show ?thesis using False by (simp add: trunc_def)
qed

lemma fmod_of_int: "fmod (of_int y) 10 = of_int (y smod 10)"
proof (cases "0 \<le> y")
  case True
  then have "y smod 10 = y mod 10"
    by (simp add: signed_modulo_int_def sgn_if)
  moreover have "y mod 10 = y - 10 * (y div 10)"
    by (simp add: minus_mult_div_eq_mod)
  ultimately have "y smod 10 = y - 10 * (y div 10)" by simp
  moreover have "fmod (of_int y) 10 = of_int y - 10 * of_int (y div 10)"
    unfolding fmod_def trunc_of_int using True by simp
  ultimately show ?thesis by simp
next
  case False
  then have "y smod 10 = - ((- y) mod 10)"
    by (simp add: signed_modulo_int_def sgn_if)
  moreover have "(- y) mod 10 = (- y) - 10 * ((- y) div 10)"
    by (simp add: minus_mult_div_eq_mod)
  ultimately have "y smod 10 = y + 10 * ((- y) div 10)" by simp
  moreover have "fmod (of_int y) 10 = of_int y + 10 * of_int ((- y) div 10)"
    unfolding fmod_def trunc_of_int using False by simp
  ultimately show ?thesis by simp
qed

lemma eval_decade:
  "field_of ''published_year'' d = BNum (of_int y) \<Longrightarrow>
   eval decade d = Some (BNum (of_int (y - y smod 10)))"
proof -
  assume "field_of ''published_year'' d = BNum (of_int y)"
  moreover have "fmod (of_int y) 10 = of_int (y smod 10)" by (rule fmod_of_int)
  ultimately show ?thesis
    by (simp add: decade_def)
qed

lemma aggregate_served:
  "serving w \<Longrightarrow> run_pipeline (arrange_rows w) stages (docs w) = Some rows \<Longrightarrow>
   aggregate stages w = (Inr rows, logged w [Db (CAggregate stages)])"
  by (simp add: aggregate_def request_served)

lemma sorted_wrt_strict:
  "sorted_wrt P xs \<Longrightarrow> distinct (map f xs) \<Longrightarrow> sorted_wrt (\<lambda>a b. P a b \<and> f a \<noteq> f b) xs"
  by (induction xs) auto

lemma distinct_group_ids:
  assumes "mset rows = mset (map row (group_docs kds))"
    and "\<And>g. field_of ''_id'' (row g) = fst g"
  shows "distinct (map (field_of ''_id'') rows)"
proof -
  have "mset (map (field_of ''_id'') rows) = image_mset (field_of ''_id'') (mset rows)"
    by simp
  also have "\<dots> = mset (map (field_of ''_id'') (map row (group_docs kds)))"
    by (simp only: assms(1) mset_map)
  also have "map (field_of ''_id'') (map row (group_docs kds)) = map fst (group_docs kds)"
    by (simp add: assms(2))
  finally have "mset (map (field_of ''_id'') rows) = mset (map fst (group_docs kds))" .
  then have "distinct (map (field_of ''_id'') rows) = distinct (map fst (group_docs kds))"
    by (rule mset_eq_imp_distinct_iff)
  then show ?thesis by (simp add: group_docs_distinct)
qed

text \<open>
  Claim C5. The group key of a document with the integer year \<open>y\<close> is \<open>y - y smod 10\<close>, where
  \<open>smod\<close> is the remainder that \<^verbatim>\<open>$mod\<close> computes (for \<open>y \<ge> 0\<close> the usual one): 1955 and 1959
  give 1950, 1960 gives 1960. Whenever the backend serves the request and every document has an
  integer \<^verbatim>\<open>published_year\<close>, \<open>booksByDecade\<close> prints one row per decade that occurs, with
  the number of documents of that decade, in strictly ascending order of the decade.
\<close>

theorem booksByDecade_groups:
  assumes "serving w"
    and years: "\<forall>d\<in>set (docs w). field_of ''published_year'' d = BNum (of_int (year d))"
  shows "(\<exists>rows.
            booksByDecade w =
              (Inr (),
               logged w
                 [Db (CAggregate booksByDecade_pipeline),
                  Log [Str ''\<newline>Books Grouped by Publication Decade:''],
                  LogTable rows])
            \<and> set rows =
                (\<lambda>d. [(''_id'', BNum (of_int (year d - year d smod 10))),
                       (''totalBooks'',
                        BNum (of_nat (length (filter
                          (\<lambda>x. year x - year x smod 10 = year d - year d smod 10) (docs w)))))])
                ` set (docs w)
            \<and> sorted_wrt (\<lambda>a b. bson_le (field_of ''_id'' a) (field_of ''_id'' b)
                                 \<and> field_of ''_id'' a \<noteq> field_of ''_id'' b) rows)
       \<and> (\<forall>d\<in>set (docs w). eval decade d = Some (BNum (of_int (year d - year d smod 10))))
       \<and> (1955::int) - 1955 smod 10 = 1950
       \<and> (1959::int) - 1959 smod 10 = 1950
       \<and> (1960::int) - 1960 smod 10 = 1960"
proof -
  define k where "k = (\<lambda>d. BNum (of_int (year d - year d smod 10)))"
  define row :: "bson \<times> doc list \<Rightarrow> doc"
    where "row = (\<lambda>g. [(''_id'', fst g), (''totalBooks'', BNum (of_nat (length (snd g))))])"
  let ?G = "group_docs (zip (map k (docs w)) (docs w))"
  have keys: "\<And>d. d \<in> set (docs w) \<Longrightarrow> eval decade d = Some (k d)"
    using years by (simp add: k_def eval_decade)
  have rows: "\<And>g. group_row [(''totalBooks'', Sum (Const (BNum 1)))] g = Some (row g)"
    by (simp only: row_def group_row_count)
  from group_then_sort [of "docs w" decade k "[(''totalBooks'', Sum (Const (BNum 1)))]" row 1
      "arrange_rows w" "''_id''", OF keys rows]
  obtain rs where rs: "run_pipeline (arrange_rows w) booksByDecade_pipeline (docs w) = Some rs"
    "mset rs = mset (map row ?G)" "sorted_wrt (key_le 1 ''_id'') rs"
    unfolding booksByDecade_pipeline_def by auto
  have run: "booksByDecade w =
      (Inr (), logged w [Db (CAggregate booksByDecade_pipeline),
         Log [Str ''\<newline>Books Grouped by Publication Decade:''], LogTable rs])"
    unfolding booksByDecade_def
    by (simp add: await_def aggregate_served [OF assms(1) rs(1)] print_table logged_logged
        del: statements.simps)
  have same_key: "\<And>x d. (k x = k d) = (year x - year x smod 10 = year d - year d smod 10)"
    by (simp only: k_def bson.inject of_int_eq_iff)
  have "set rs = set (map row ?G)"
    using rs(2) by (rule mset_eq_setD)
  also have "\<dots> = row ` (\<lambda>d. (k d, filter (\<lambda>x. k x = k d) (docs w))) ` set (docs w)"
    by (simp only: set_map groups_by_key)
  also have "\<dots> = (\<lambda>d. [(''_id'', BNum (of_int (year d - year d smod 10))),
                       (''totalBooks'',
                        BNum (of_nat (length (filter
                          (\<lambda>x. year x - year x smod 10 = year d - year d smod 10) (docs w)))))])
                ` set (docs w)"
    unfolding image_image row_def fst_conv snd_conv same_key unfolding k_def ..
  finally have set_rs: "set rs = (\<lambda>d. [(''_id'', BNum (of_int (year d - year d smod 10))),
                       (''totalBooks'',
                        BNum (of_nat (length (filter
                          (\<lambda>x. year x - year x smod 10 = year d - year d smod 10) (docs w)))))])
                ` set (docs w)" .
  have "distinct (map (field_of ''_id'') rs)"
    using rs(2) by (rule distinct_group_ids) (simp add: row_def field_of_def)
  with rs(3) have strict: "sorted_wrt (\<lambda>a b. bson_le (field_of ''_id'' a) (field_of ''_id'' b)
                                 \<and> field_of ''_id'' a \<noteq> field_of ''_id'' b) rs"
    unfolding key_le_asc by (rule sorted_wrt_strict)
  have inst: "(1955::int) - 1955 smod 10 = 1950" "(1959::int) - 1959 smod 10 = 1950"
    "(1960::int) - 1960 smod 10 = 1960"
    by (simp_all add: signed_modulo_int_def)
  from run set_rs strict keys inst show ?thesis
    unfolding k_def by blast
qed

lemma fmod_samples: "fmod 1955 10 = 5" "fmod 1959 10 = 9" "fmod 1960 10 = 0"
  using fmod_of_int [of 1955] fmod_of_int [of 1959] fmod_of_int [of 1960]
  by (simp_all add: signed_modulo_int_def)

lemma booksByDecade_sample:
  "booksByDecade (shop [book_a, book_b, book_c]) =
     (Inr (),
      logged (shop [book_a, book_b, book_c])
        [Db (CAggregate booksByDecade_pipeline),
         Log [Str ''\<newline>Books Grouped by Publication Decade:''],
         LogTable [[(''_id'', BNum 1950), (''totalBooks'', BNum 2)],
                   [(''_id'', BNum 1960), (''totalBooks'', BNum 1)]]])"
proof -
  let ?w = "shop [book_a, book_b, book_c]"
  have "run_pipeline (arrange_rows ?w) booksByDecade_pipeline (docs ?w) =
      Some [[(''_id'', BNum 1950), (''totalBooks'', BNum 2)],
            [(''_id'', BNum 1960), (''totalBooks'', BNum 1)]]"
    by (simp add: shop_def booksByDecade_pipeline_def decade_def book_a_def book_b_def book_c_def
        field_of_def fmod_samples group_row_def List.map_filter_simps permute_def sort_docs_def
        sort_by_def key_le_def)
  from aggregate_served [OF serving_shop this] show ?thesis
    unfolding booksByDecade_def
    by (simp add: await_def print_table logged_logged del: statements.simps)
qed

text \<open>
  Three books of 1955, 1959 and 1960: two rows, 1950 with two books and 1960 with one.
\<close>

theorem booksByDecade_groups_witness:
  "serving (shop [book_a, book_b, book_c])
   \<and> list_all (\<lambda>d. field_of ''published_year'' d = BNum (of_int (sample_year d)))
        (docs (shop [book_a, book_b, book_c]))
   \<and> list_all (\<lambda>d. eval decade d = Some (BNum (of_int (sample_year d - sample_year d smod 10))))
        (docs (shop [book_a, book_b, book_c]))
   \<and> booksByDecade (shop [book_a, book_b, book_c]) =
       (Inr (),
        logged (shop [book_a, book_b, book_c])
          [Db (CAggregate booksByDecade_pipeline),
           Log [Str ''\<newline>Books Grouped by Publication Decade:''],
           LogTable [[(''_id'', BNum 1950), (''totalBooks'', BNum 2)],
                     [(''_id'', BNum 1960), (''totalBooks'', BNum 1)]]])"
proof -
  let ?w = "shop [book_a, book_b, book_c]"
  have y: "\<forall>d\<in>set (docs ?w). field_of ''published_year'' d = BNum (of_int (sample_year d))"
    by (simp add: shop_def sample_year_def book_a_def book_b_def book_c_def field_of_def)
  from booksByDecade_groups [OF serving_shop y]
  have "\<forall>d\<in>set (docs ?w). eval decade d = Some (BNum (of_int (sample_year d - sample_year d smod 10)))"
    by blast
  with y show ?thesis
    by (simp only: list_all_iff serving_shop booksByDecade_sample simp_thms)
qed

subsection \<open>authorWithMostBooks\<close>

lemma run_pipeline_append:
  "run_pipeline arr (xs @ ys) ds =
     (case run_pipeline arr xs ds of None \<Rightarrow> None | Some rows \<Rightarrow> run_pipeline arr ys rows)"
  by (induction xs arbitrary: ds) (simp_all split: option.splits del: run_stage.simps)

lemma singleton_rows:
  assumes "set xs = {x}" and "distinct (map f xs)"
  shows "xs = [x]"
proof (cases xs)
  case Nil
  with assms(1) show ?thesis by simp
next
  case (Cons y ys)
  with assms(1) have y: "y = x" and sub: "set ys \<subseteq> {x}" by auto
  have "ys = []"
  proof (cases ys)
    case Nil
    then show ?thesis .
  next
    case (Cons z zs)
    with sub have "z = x" by simp
    with Cons \<open>xs = y # ys\<close> y assms(2) show ?thesis by simp
  qed
  with Cons y show ?thesis by simp
qed

text \<open>
  Claim C6, for a collection that holds at least one document. Whenever the backend serves
  the request, on such a collection \<open>authorWithMostBooks\<close> prints exactly one row: an author of the collection with the number
  of that author's documents, and no author has more. This holds for every arrangement the
  backend may choose, so also when several authors have the highest count; which of them is
  printed is a function of the state, of which the choices of the backend are a part.
\<close>

theorem authorWithMostBooks_single:
  assumes "serving w" and "docs w \<noteq> []"
  shows "\<exists>a n.
           authorWithMostBooks w =
             (Inr (),
              logged w
                [Db (CAggregate authorWithMostBooks_pipeline),
                 Log [Str ''\<newline>Author with the Most Books:''],
                 LogTable [[(''_id'', a), (''totalBooks'', BNum (of_nat n))]]])
           \<and> a \<in> field_of ''author'' ` set (docs w)
           \<and> n = length (filter (\<lambda>d. field_of ''author'' d = a) (docs w))
           \<and> (\<forall>b. length (filter (\<lambda>d. field_of ''author'' d = b) (docs w)) \<le> n)"
proof -
  define k where "k = field_of ''author''"
  define row :: "bson \<times> doc list \<Rightarrow> doc"
    where "row = (\<lambda>g. [(''_id'', fst g), (''totalBooks'', BNum (of_nat (length (snd g))))])"
  define count where "count = (\<lambda>b. length (filter (\<lambda>d. k d = b) (docs w)))"
  let ?G = "group_docs (zip (map k (docs w)) (docs w))"
  have keys: "\<And>d. d \<in> set (docs w) \<Longrightarrow> eval (Path ''author'') d = Some (k d)"
    by (simp add: k_def)
  have rows: "\<And>g. group_row [(''totalBooks'', Sum (Const (BNum 1)))] g = Some (row g)"
    by (simp only: row_def group_row_count)
  from group_then_sort [of "docs w" "Path ''author''" k "[(''totalBooks'', Sum (Const (BNum 1)))]"
      row "-1" "arrange_rows w" "''totalBooks''", OF keys rows]
  obtain rs where rs:
    "run_pipeline (arrange_rows w)
       [Group (Path ''author'') [(''totalBooks'', Sum (Const (BNum 1)))], Sort ''totalBooks'' (-1)]
       (docs w) = Some rs"
    "mset rs = mset (map row ?G)" "sorted_wrt (key_le (-1) ''totalBooks'') rs"
    by auto
  have "set rs = set (map row ?G)"
    using rs(2) by (rule mset_eq_setD)
  also have "\<dots> = row ` (\<lambda>d. (k d, filter (\<lambda>x. k x = k d) (docs w))) ` set (docs w)"
    by (simp only: set_map groups_by_key)
  also have "\<dots> = (\<lambda>d. [(''_id'', k d), (''totalBooks'', BNum (of_nat (count (k d))))]) ` set (docs w)"
    unfolding image_image row_def fst_conv snd_conv count_def ..
  finally have set_rs:
    "set rs = (\<lambda>d. [(''_id'', k d), (''totalBooks'', BNum (of_nat (count (k d))))]) ` set (docs w)" .
  with assms(2) have "rs \<noteq> []" by auto
  then obtain r rest where r: "rs = r # rest" by (cases rs) auto
  with set_rs obtain d where d: "d \<in> set (docs w)"
    "r = [(''_id'', k d), (''totalBooks'', BNum (of_nat (count (k d))))]"
    by auto
  have pipeline: "authorWithMostBooks_pipeline =
      [Group (Path ''author'') [(''totalBooks'', Sum (Const (BNum 1)))], Sort ''totalBooks'' (-1)]
      @ [Limit 1]"
    by (simp add: authorWithMostBooks_pipeline_def)
  have "run_pipeline (arrange_rows w) authorWithMostBooks_pipeline (docs w) = Some [r]"
    unfolding pipeline run_pipeline_append rs(1) by (simp add: r)
  from aggregate_served [OF assms(1) this]
  have run: "authorWithMostBooks w =
      (Inr (), logged w [Db (CAggregate authorWithMostBooks_pipeline),
         Log [Str ''\<newline>Author with the Most Books:''], LogTable [r]])"
    unfolding authorWithMostBooks_def
    by (simp add: await_def print_table logged_logged del: statements.simps)
  have most: "count b \<le> count (k d)" for b
  proof (cases "b \<in> k ` set (docs w)")
    case False
    then have "filter (\<lambda>x. k x = b) (docs w) = []"
      by (auto simp: filter_empty_conv)
    then show ?thesis by (simp add: count_def)
  next
    case True
    then obtain e where e: "e \<in> set (docs w)" "b = k e" by auto
    let ?rb = "[(''_id'', k e), (''totalBooks'', BNum (of_nat (count (k e))))]"
    from e(1) set_rs have "?rb \<in> set rs" by blast
    with r have "?rb = r \<or> ?rb \<in> set rest" by auto
    then show ?thesis
    proof
      assume "?rb = r"
      with d(2) e(2) show ?thesis by simp
    next
      assume "?rb \<in> set rest"
      with rs(3) r have "key_le (-1) ''totalBooks'' r ?rb" by simp
      with d(2) e(2) show ?thesis by (simp add: key_le_def field_of_def)
    qed
  qed
  from run d most show ?thesis
    unfolding count_def k_def by blast
qed

text \<open>
  One book by Ann and two by Bob.
\<close>

theorem authorWithMostBooks_single_witness:
  "serving (shop [book_a, book_b, book_c]) \<and> docs (shop [book_a, book_b, book_c]) \<noteq> []
   \<and> authorWithMostBooks (shop [book_a, book_b, book_c]) =
       (Inr (),
        logged (shop [book_a, book_b, book_c])
          [Db (CAggregate authorWithMostBooks_pipeline),
           Log [Str ''\<newline>Author with the Most Books:''],
           LogTable [[(''_id'', BStr ''Bob''), (''totalBooks'', BNum 2)]]])"
proof -
  let ?w = "shop [book_a, book_b, book_c]"
  have ne: "docs ?w \<noteq> []" by (simp add: shop_def)
  from authorWithMostBooks_single [OF serving_shop ne] obtain a n where an:
    "authorWithMostBooks ?w =
       (Inr (), logged ?w [Db (CAggregate authorWithMostBooks_pipeline),
          Log [Str ''\<newline>Author with the Most Books:''],
          LogTable [[(''_id'', a), (''totalBooks'', BNum (of_nat n))]]])"
    "a \<in> field_of ''author'' ` set (docs ?w)"
    "n = length (filter (\<lambda>d. field_of ''author'' d = a) (docs ?w))"
    "\<forall>b. length (filter (\<lambda>d. field_of ''author'' d = b) (docs ?w)) \<le> n"
    by blast
  from an(4) have "length (filter (\<lambda>d. field_of ''author'' d = BStr ''Bob'') (docs ?w)) \<le> n" ..
  then have "2 \<le> n"
    by (simp add: shop_def book_a_def book_b_def book_c_def field_of_def)
  with an(2,3) have "a = BStr ''Bob'' \<and> n = 2"
    by (auto simp add: shop_def book_a_def book_b_def book_c_def field_of_def)
  with an(1) serving_shop ne show ?thesis by simp
qed

lemma authorWithMostBooks_empty:
  assumes "serving w" and "docs w = []"
  shows "authorWithMostBooks w =
           (Inr (),
            logged w
              [Db (CAggregate authorWithMostBooks_pipeline),
               Log [Str ''\<newline>Author with the Most Books:''],
               LogTable []])"
proof -
  have "run_pipeline (arrange_rows w) authorWithMostBooks_pipeline (docs w) = Some []"
    by (simp add: assms(2) authorWithMostBooks_pipeline_def permute_def sort_docs_def sort_by_def)
  from aggregate_served [OF assms(1) this] show ?thesis
    unfolding authorWithMostBooks_def
    by (simp add: await_def print_table logged_logged del: statements.simps)
qed

subsection \<open>averagePriceByGenre\<close>

text \<open>
  Claim C6 as stated fails on an empty collection: there is no author, the table printed has
  no row, and no row is not exactly one.
\<close>

theorem authorWithMostBooks_no_author:
  "authorWithMostBooks (shop []) =
     (Inr (),
      logged (shop [])
        [Db (CAggregate authorWithMostBooks_pipeline),
         Log [Str ''\<newline>Author with the Most Books:''],
         LogTable []])
   \<and> length ([] :: doc list) \<noteq> 1"
proof -
  have "docs (shop []) = []"
    by (simp add: shop_def)
  with serving_shop have "authorWithMostBooks (shop []) =
     (Inr (),
      logged (shop [])
        [Db (CAggregate authorWithMostBooks_pipeline),
         Log [Str ''\<newline>Author with the Most Books:''],
         LogTable []])"
    by (rule authorWithMostBooks_empty)
  then show ?thesis by simp
qed

lemma averagePriceByGenre_sample:
  "averagePriceByGenre (shop [book_a, book_b]) =
     (Inr (),
      logged (shop [book_a, book_b])
        [Db (CAggregate averagePriceByGenre_pipeline),
         Log [Str ''\<newline>Average Price by Genre:''],
         LogTable [[(''_id'', BStr ''Fiction''), (''averagePrice'', BNum 15)]]])"
proof -
  let ?w = "shop [book_a, book_b]"
  have "run_pipeline (arrange_rows ?w) averagePriceByGenre_pipeline (docs ?w) =
      Some [[(''_id'', BStr ''Fiction''), (''averagePrice'', BNum 15)]]"
    by (simp add: shop_def averagePriceByGenre_pipeline_def book_a_def book_b_def
        field_of_def group_row_def List.map_filter_simps permute_def sort_docs_def
        sort_by_def key_le_def)
  from aggregate_served [OF serving_shop this] show ?thesis
    unfolding averagePriceByGenre_def
    by (simp add: await_def print_table logged_logged del: statements.simps)
qed

text \<open>
  Claim C7, with the genre of a group in the field \<^verbatim>\<open>_id\<close>. Whenever the backend serves the
  request, \<open>averagePriceByGenre\<close> prints one row per genre that occurs, holding the genre as
  \<^verbatim>\<open>_id\<close> and the mean of the prices of the documents of the genre as \<^verbatim>\<open>averagePrice\<close>,
  in non-increasing order of the mean. On a collection of exactly two books, one with price
  10 and one with price 20, both of genre Fiction, the rows are the single row
  \<^verbatim>\<open>{_id: "Fiction", averagePrice: 15}\<close>.
\<close>

theorem averagePriceByGenre_groups:
  assumes "serving w"
  shows "\<exists>rows.
           averagePriceByGenre w =
             (Inr (),
              logged w
                [Db (CAggregate averagePriceByGenre_pipeline),
                 Log [Str ''\<newline>Average Price by Genre:''],
                 LogTable rows])
           \<and> set rows =
               (\<lambda>d. [(''_id'', field_of ''genre'' d),
                      (''averagePrice'',
                       mean_of (prices (filter
                         (\<lambda>x. field_of ''genre'' x = field_of ''genre'' d) (docs w))))])
               ` set (docs w)
           \<and> distinct (map (field_of ''_id'') rows)
           \<and> sorted_wrt (\<lambda>a b. bson_le (field_of ''averagePrice'' b) (field_of ''averagePrice'' a)) rows
           \<and> (\<forall>a b. (docs w = [a, b] \<or> docs w = [b, a])
                    \<and> field_of ''genre'' a = BStr ''Fiction'' \<and> field_of ''price'' a = BNum 10
                    \<and> field_of ''genre'' b = BStr ''Fiction'' \<and> field_of ''price'' b = BNum 20
                  \<longrightarrow> rows = [[(''_id'', BStr ''Fiction''), (''averagePrice'', BNum 15)]])"
proof -
  define k where "k = field_of ''genre''"
  define row :: "bson \<times> doc list \<Rightarrow> doc"
    where "row = (\<lambda>g. [(''_id'', fst g), (''averagePrice'', mean_of (prices (snd g)))])"
  let ?G = "group_docs (zip (map k (docs w)) (docs w))"
  have keys: "\<And>d. d \<in> set (docs w) \<Longrightarrow> eval (Path ''genre'') d = Some (k d)"
    by (simp add: k_def)
  have rows: "\<And>g. group_row [(''averagePrice'', Avg (Path ''price''))] g = Some (row g)"
    by (simp only: row_def group_row_avg)
  from group_then_sort [of "docs w" "Path ''genre''" k "[(''averagePrice'', Avg (Path ''price''))]"
      row "-1" "arrange_rows w" "''averagePrice''", OF keys rows]
  obtain rs where rs:
    "run_pipeline (arrange_rows w) averagePriceByGenre_pipeline (docs w) = Some rs"
    "mset rs = mset (map row ?G)" "sorted_wrt (key_le (-1) ''averagePrice'') rs"
    unfolding averagePriceByGenre_pipeline_def by auto
  have run: "averagePriceByGenre w =
      (Inr (), logged w [Db (CAggregate averagePriceByGenre_pipeline),
         Log [Str ''\<newline>Average Price by Genre:''], LogTable rs])"
    unfolding averagePriceByGenre_def
    by (simp add: await_def aggregate_served [OF assms(1) rs(1)] print_table logged_logged
        del: statements.simps)
  have "set rs = set (map row ?G)"
    using rs(2) by (rule mset_eq_setD)
  also have "\<dots> = row ` (\<lambda>d. (k d, filter (\<lambda>x. k x = k d) (docs w))) ` set (docs w)"
    by (simp only: set_map groups_by_key)
  also have "\<dots> = (\<lambda>d. [(''_id'', field_of ''genre'' d),
                      (''averagePrice'',
                       mean_of (prices (filter
                         (\<lambda>x. field_of ''genre'' x = field_of ''genre'' d) (docs w))))])
               ` set (docs w)"
    unfolding image_image row_def fst_conv snd_conv k_def ..
  finally have set_rs: "set rs = (\<lambda>d. [(''_id'', field_of ''genre'' d),
                      (''averagePrice'',
                       mean_of (prices (filter
                         (\<lambda>x. field_of ''genre'' x = field_of ''genre'' d) (docs w))))])
               ` set (docs w)" .
  have dist: "distinct (map (field_of ''_id'') rs)"
    using rs(2) by (rule distinct_group_ids) (simp add: row_def field_of_def)
  have sorted: "sorted_wrt (\<lambda>a b. bson_le (field_of ''averagePrice'' b) (field_of ''averagePrice'' a)) rs"
    using rs(3) by (simp only: key_le_desc)
  have two: "rs = [[(''_id'', BStr ''Fiction''), (''averagePrice'', BNum 15)]]"
    if ab: "docs w = [a, b] \<or> docs w = [b, a]"
      and a: "field_of ''genre'' a = BStr ''Fiction''" "field_of ''price'' a = BNum 10"
      and b: "field_of ''genre'' b = BStr ''Fiction''" "field_of ''price'' b = BNum 20"
    for a b
  proof -
    from ab a b have "set rs = {[(''_id'', BStr ''Fiction''), (''averagePrice'', BNum 15)]}"
      unfolding set_rs
      by (auto simp add: prices_def mean_of_def List.map_filter_simps)
    then show ?thesis using dist by (rule singleton_rows)
  qed
  from run set_rs dist sorted two show ?thesis by blast
qed

text \<open>
  The two books of the scenario.
\<close>

theorem averagePriceByGenre_groups_witness:
  "serving (shop [book_a, book_b])
   \<and> docs (shop [book_a, book_b]) = [book_a, book_b]
   \<and> field_of ''genre'' book_a = BStr ''Fiction'' \<and> field_of ''price'' book_a = BNum 10
   \<and> field_of ''genre'' book_b = BStr ''Fiction'' \<and> field_of ''price'' book_b = BNum 20
   \<and> averagePriceByGenre (shop [book_a, book_b]) =
       (Inr (),
        logged (shop [book_a, book_b])
          [Db (CAggregate averagePriceByGenre_pipeline),
           Log [Str ''\<newline>Average Price by Genre:''],
           LogTable [[(''_id'', BStr ''Fiction''), (''averagePrice'', BNum 15)]]])"
proof -
  let ?w = "shop [book_a, book_b]"
  have docs: "docs ?w = [book_a, book_b]" by (simp add: shop_def)
  have a: "field_of ''genre'' book_a = BStr ''Fiction''" "field_of ''price'' book_a = BNum 10"
    by (simp_all add: book_a_def field_of_def)
  have b: "field_of ''genre'' book_b = BStr ''Fiction''" "field_of ''price'' book_b = BNum 20"
    by (simp_all add: book_b_def field_of_def)
  from averagePriceByGenre_groups [OF serving_shop, of "[book_a, book_b]"] obtain rows where rows:
    "averagePriceByGenre ?w =
       (Inr (), logged ?w [Db (CAggregate averagePriceByGenre_pipeline),
          Log [Str ''\<newline>Average Price by Genre:''], LogTable rows])"
    "\<forall>a b. (docs ?w = [a, b] \<or> docs ?w = [b, a])
         \<and> field_of ''genre'' a = BStr ''Fiction'' \<and> field_of ''price'' a = BNum 10
         \<and> field_of ''genre'' b = BStr ''Fiction'' \<and> field_of ''price'' b = BNum 20
       \<longrightarrow> rows = [[(''_id'', BStr ''Fiction''), (''averagePrice'', BNum 15)]]"
    by blast
  from rows(2) docs a b have "rows = [[(''_id'', BStr ''Fiction''), (''averagePrice'', BNum 15)]]"
    by blast
  with rows(1) docs a b serving_shop show ?thesis by simp
qed

text \<open>
  Claim C7 as stated fails on the scenario: the row printed has the fields \<^verbatim>\<open>_id\<close> and
  \<^verbatim>\<open>averagePrice\<close>; it has no field \<^verbatim>\<open>genre\<close>.
\<close>

theorem averagePriceByGenre_no_genre_field:
  "averagePriceByGenre (shop [book_a, book_b]) =
     (Inr (),
      logged (shop [book_a, book_b])
        [Db (CAggregate averagePriceByGenre_pipeline),
         Log [Str ''\<newline>Average Price by Genre:''],
         LogTable [[(''_id'', BStr ''Fiction''), (''averagePrice'', BNum 15)]]])
   \<and> [[(''_id'', BStr ''Fiction''), (''averagePrice'', BNum 15)]]
       \<noteq> [[(''genre'', BStr ''Fiction''), (''averagePrice'', BNum 15)]]"
  by (simp add: averagePriceByGenre_sample)

subsection \<open>Calm functions\<close>



lemma calm_emit:
  assumes "e \<noteq> Db CConnect" and "e \<noteq> Db CClose"
  shows "calm (emit e)"
  unfolding calm_def
proof
  fix w
  from assms have "trace (snd (emit e w)) = trace w @ [e] \<and> Db CConnect \<notin> set [e]
      \<and> Db CClose \<notin> set [e] \<and> faults (snd (emit e w)) = faults w"
    by (auto simp add: emit_def)
  then show "\<exists>es. trace (snd (emit e w)) = trace w @ es \<and> Db CConnect \<notin> set es
      \<and> Db CClose \<notin> set es \<and> faults (snd (emit e w)) = faults w" ..
qed



lemma calm_console_error: "calm (console_error ps)"
  unfolding console_error_def by (rule calm_emit) simp_all




























subsection \<open>run\<close>








subsection \<open>analyzeIndexPerformance\<close>

lemma analyze_outcome:
  fixes w :: world
  defines "n \<equiv> length (trace w)"
    and "q \<equiv> find [(''title'', Eq (BStr ''1984''))]"
    and "kept \<equiv> (if faults w CDropIndexes (length (trace w)) then indexes w else [])"
  shows "analyzeIndexPerformance w =
     (if faults w (CExplain q) (n + 1)
        then (Inl Fault, w\<lparr>indexes := kept, trace := trace w @ [Db CDropIndexes, Db (CExplain q)]\<rparr>)
      else if faults w (CCreateIndex [(''title'', 1)]) (n + 4)
        then (Inl Fault,
              w\<lparr>indexes := kept,
                trace := trace w @
                  [Db CDropIndexes, Db (CExplain q),
                   Log [Str ''\<newline>Before Index: Total Docs Examined ='',
                        Val (BNum (of_nat (totalDocsExamined (planner w (n + 2)))))],
                   Log [Str ''Before Index: Execution Time ='',
                        Val (BNum (of_nat (executionTimeMillis (planner w (n + 2))))), Str ''ms''],
                   Db (CCreateIndex [(''title'', 1)])]\<rparr>)
      else if faults w (CExplain q) (n + 5)
        then (Inl Fault,
              w\<lparr>indexes := (if [(''title'', 1)] \<in> set kept then kept else kept @ [[(''title'', 1)]]),
                trace := trace w @
                  [Db CDropIndexes, Db (CExplain q),
                   Log [Str ''\<newline>Before Index: Total Docs Examined ='',
                        Val (BNum (of_nat (totalDocsExamined (planner w (n + 2)))))],
                   Log [Str ''Before Index: Execution Time ='',
                        Val (BNum (of_nat (executionTimeMillis (planner w (n + 2))))), Str ''ms''],
                   Db (CCreateIndex [(''title'', 1)]), Db (CExplain q)]\<rparr>)
      else (Inr (),
            w\<lparr>indexes := (if [(''title'', 1)] \<in> set kept then kept else kept @ [[(''title'', 1)]]),
              trace := trace w @
                [Db CDropIndexes, Db (CExplain q),
                 Log [Str ''\<newline>Before Index: Total Docs Examined ='',
                      Val (BNum (of_nat (totalDocsExamined (planner w (n + 2)))))],
                 Log [Str ''Before Index: Execution Time ='',
                      Val (BNum (of_nat (executionTimeMillis (planner w (n + 2))))), Str ''ms''],
                 Db (CCreateIndex [(''title'', 1)]), Db (CExplain q),
                 Log [Str ''After Index: Total Docs Examined ='',
                      Val (BNum (of_nat (totalDocsExamined (planner w (n + 6)))))],
                 Log [Str ''After Index: Execution Time ='',
                      Val (BNum (of_nat (executionTimeMillis (planner w (n + 6))))), Str ''ms''],
                 Log [Str ''Winning Plan:'', Str (winning_stage (planner w (n + 6)))]]\<rparr>))"
  unfolding analyzeIndexPerformance_def Let_def n_def q_def kept_def
  by (simp add: await_def dropIndexes_def explain_def createIndex_def request_def
      console_log_def emit_def Let_def eval_nat_numeral)

text \<open>
  Claim C9, with the before metrics printed before the index is recreated. A rejected
  \<open>dropIndexes\<close> does not stop the function: \<open>analyzeIndexPerformance\<close> completes exactly when
  the backend serves the two explains and the \<open>createIndex\<close>, and then it has performed exactly
  this sequence: drop all indexes, explain the query for the title \<^verbatim>\<open>1984\<close>, print the
  documents examined and the execution time of that explain, create the ascending index on
  the title, explain the same query again, print the documents examined and the execution
  time of the second explain, print the stage of its winning plan. When the backend served
  the \<open>dropIndexes\<close>, the index on the title is then the only index created; otherwise it has
  been added to the indexes that were there, unless it was among them.
\<close>

theorem analyzeIndexPerformance_steps:
  fixes w :: world
  defines "n \<equiv> length (trace w)"
    and "q \<equiv> find [(''title'', Eq (BStr ''1984''))]"
  shows "(fst (analyzeIndexPerformance w) = Inr ()) =
           (\<not> faults w (CExplain q) (n + 1)
            \<and> \<not> faults w (CCreateIndex [(''title'', 1)]) (n + 4)
            \<and> \<not> faults w (CExplain q) (n + 5))
       \<and> (fst (analyzeIndexPerformance w) = Inr () \<longrightarrow>
            snd (analyzeIndexPerformance w) =
              w\<lparr>indexes :=
                  (if faults w CDropIndexes n
                   then (if [(''title'', 1)] \<in> set (indexes w) then indexes w
                         else indexes w @ [[(''title'', 1)]])
                   else [[(''title'', 1)]]),
                trace := trace w @
                  [Db CDropIndexes,
                   Db (CExplain q),
                   Log [Str ''\<newline>Before Index: Total Docs Examined ='',
                        Val (BNum (of_nat (totalDocsExamined (planner w (n + 2)))))],
                   Log [Str ''Before Index: Execution Time ='',
                        Val (BNum (of_nat (executionTimeMillis (planner w (n + 2))))), Str ''ms''],
                   Db (CCreateIndex [(''title'', 1)]),
                   Db (CExplain q),
                   Log [Str ''After Index: Total Docs Examined ='',
                        Val (BNum (of_nat (totalDocsExamined (planner w (n + 6)))))],
                   Log [Str ''After Index: Execution Time ='',
                        Val (BNum (of_nat (executionTimeMillis (planner w (n + 6))))), Str ''ms''],
                   Log [Str ''Winning Plan:'', Str (winning_stage (planner w (n + 6)))]]\<rparr>)"
  unfolding n_def q_def analyze_outcome by simp

text \<open>
  A collection of one book on a backend that serves every call.
\<close>

theorem analyzeIndexPerformance_steps_witness:
  "fst (analyzeIndexPerformance (shop [book_a])) = Inr ()
   \<and> snd (analyzeIndexPerformance (shop [book_a])) =
       (shop [book_a])
         \<lparr>indexes := [[(''title'', 1)]],
           trace :=
             [Db CDropIndexes,
              Db (CExplain (find [(''title'', Eq (BStr ''1984''))])),
              Log [Str ''\<newline>Before Index: Total Docs Examined ='', Val (BNum 1)],
              Log [Str ''Before Index: Execution Time ='', Val (BNum 0), Str ''ms''],
              Db (CCreateIndex [(''title'', 1)]),
              Db (CExplain (find [(''title'', Eq (BStr ''1984''))])),
              Log [Str ''After Index: Total Docs Examined ='', Val (BNum 0)],
              Log [Str ''After Index: Execution Time ='', Val (BNum 0), Str ''ms''],
              Log [Str ''Winning Plan:'', Str ''FETCH'']]\<rparr>"
proof -
  have ok: "fst (analyzeIndexPerformance (shop [book_a])) = Inr ()"
    using analyzeIndexPerformance_steps [of "shop [book_a]"]
    by (simp add: shop_def no_faults_def)
  with analyzeIndexPerformance_steps [of "shop [book_a]"] show ?thesis
    by (simp add: shop_def sample_plan_def no_faults_def)
qed

text \<open>
  Claim C9 as stated fails: the sequence performed is not drop, explain, create, explain
  followed by all the printing; the two lines of before metrics come third and fourth,
  before the index is recreated.
\<close>

theorem analyzeIndexPerformance_prints_before_recreating:
  "trace (snd (analyzeIndexPerformance (shop [book_a]))) =
     [Db CDropIndexes,
      Db (CExplain (find [(''title'', Eq (BStr ''1984''))])),
      Log [Str ''\<newline>Before Index: Total Docs Examined ='', Val (BNum 1)],
      Log [Str ''Before Index: Execution Time ='', Val (BNum 0), Str ''ms''],
      Db (CCreateIndex [(''title'', 1)]),
      Db (CExplain (find [(''title'', Eq (BStr ''1984''))])),
      Log [Str ''After Index: Total Docs Examined ='', Val (BNum 0)],
      Log [Str ''After Index: Execution Time ='', Val (BNum 0), Str ''ms''],
      Log [Str ''Winning Plan:'', Str ''FETCH'']]
   \<and> trace (snd (analyzeIndexPerformance (shop [book_a]))) \<noteq>
     [Db CDropIndexes,
      Db (CExplain (find [(''title'', Eq (BStr ''1984''))])),
      Db (CCreateIndex [(''title'', 1)]),
      Db (CExplain (find [(''title'', Eq (BStr ''1984''))])),
      Log [Str ''\<newline>Before Index: Total Docs Examined ='', Val (BNum 1)],
      Log [Str ''Before Index: Execution Time ='', Val (BNum 0), Str ''ms''],
      Log [Str ''After Index: Total Docs Examined ='', Val (BNum 0)],
      Log [Str ''After Index: Execution Time ='', Val (BNum 0), Str ''ms''],
      Log [Str ''Winning Plan:'', Str ''FETCH'']]"
  unfolding analyze_outcome by (simp add: shop_def no_faults_def sample_plan_def)

end
